theory Spec2Isabelle
  imports Main "HOL-Library.Word"
begin

unbundle bit_operations_syntax

text \<open>
  A model of the fault collection and control unit of fccu-cpp: the priority queue set
  (\<^verbatim>\<open>fault_queue_set.hpp\<close>), the global and the per-fault state machine (\<^verbatim>\<open>fccu_hsm.hpp\<close>) and
  the collector (\<^verbatim>\<open>fccu.hpp\<close>). Every member function is a function on the collector's
  state that returns its result together with the new state. The model is sequential:
  the operations of the producer and of the consumer are applied one after the other,
  an atomic member is a plain value, and a callback acts on the memory outside the
  collector but does not call back into the collector.
\<close>

section \<open>Machine integers and enumerations\<close>

type_synonym u32 = "32 word"
type_synonym u64 = "64 word"

text \<open>
  \<^verbatim>\<open>enum class FaultPriority : uint8_t { kCritical = 0, kHigh = 1, kMedium = 2, kLow = 3 }\<close>.
  A priority is one of the four enumerators; a value cast from another number is not
  modelled.
\<close>

datatype FaultPriority = kCritical | kHigh | kMedium | kLow

text \<open>\<^verbatim>\<open>static_cast<uint8_t>(priority)\<close>\<close>

fun priority_u8 :: "FaultPriority \<Rightarrow> nat" where
  "priority_u8 kCritical = 0"
| "priority_u8 kHigh = 1"
| "priority_u8 kMedium = 2"
| "priority_u8 kLow = 3"

text \<open>\<^verbatim>\<open>static_cast<FaultPriority>(n)\<close>, for the enumerators 0..3 (the only values the
  code casts: \<^verbatim>\<open>pri - 1\<close> with \<^verbatim>\<open>pri\<close> in 1..3).\<close>

definition to_FaultPriority :: "nat \<Rightarrow> FaultPriority" where
  "to_FaultPriority n =
     (if n = 0 then kCritical else if n = 1 then kHigh else if n = 2 then kMedium else kLow)"

datatype HookAction = kHandled | kEscalate | kDefer | kShutdown

datatype FccuError =
  kOk | kQueueFull | kInvalidIndex | kAlreadyRegistered | kNotRegistered
  | kAdmissionDenied | kHsmSlotFull

section \<open>The single-producer single-consumer ring\<close>

text \<open>
  Modelled from the spec: \<^verbatim>\<open>spsc::Ringbuffer<T, LevelSize>\<close> (\<^verbatim>\<open>spsc/ringbuffer.hpp\<close>, an
  external header that is not part of the sources). The specification gives each ring the
  capacity \<^verbatim>\<open>QueueDepth\<close>, first-in first-out delivery, and the operations push (fails iff
  the ring is full), pop (fails iff the ring is empty) and size. A ring is the list of
  its queued items, oldest first.
\<close>

type_synonym 'a Ringbuffer = "'a list"

definition ring_Push :: "nat \<Rightarrow> 'a \<Rightarrow> 'a Ringbuffer \<Rightarrow> bool \<times> 'a Ringbuffer" where
  "ring_Push capacity item r =
     (if length r < capacity then (True, r @ [item]) else (False, r))"

definition ring_Pop :: "'a Ringbuffer \<Rightarrow> ('a \<times> 'a Ringbuffer) option" where
  "ring_Pop r = (case r of [] \<Rightarrow> None | x # xs \<Rightarrow> Some (x, xs))"

definition ring_Size :: "'a Ringbuffer \<Rightarrow> nat" where
  "ring_Size r = length r"

section \<open>FaultQueueSet (fault_queue_set.hpp)\<close>

text \<open>
  \<^verbatim>\<open>std::array<spsc::Ringbuffer<T, LevelSize>, Levels> queues_\<close> is a function from the
  level to its ring; the code reads and writes it only at levels below \<^verbatim>\<open>Levels\<close> (every
  access is behind \<^verbatim>\<open>level >= Levels\<close> or a loop bound). The template parameter
  \<^verbatim>\<open>LevelSize\<close> is a \<^verbatim>\<open>uint32_t\<close>, and the thresholds are \<^verbatim>\<open>uint32_t\<close> constant expressions.
\<close>

type_synonym 'a queues = "nat \<Rightarrow> 'a Ringbuffer"

definition kLowThreshold :: "u32 \<Rightarrow> u32" where
  "kLowThreshold LevelSize = (LevelSize * 60) div 100"

definition kMediumThreshold :: "u32 \<Rightarrow> u32" where
  "kMediumThreshold LevelSize = (LevelSize * 80) div 100"

definition kHighThreshold :: "u32 \<Rightarrow> u32" where
  "kHighThreshold LevelSize = (LevelSize * 99) div 100"

definition AdmitByPriority :: "u32 \<Rightarrow> nat \<Rightarrow> u32 \<Rightarrow> bool" where
  "AdmitByPriority LevelSize level current_depth =
     (if level = 0 then True
      else if level = 1 then current_depth < kHighThreshold LevelSize
      else if level = 2 then current_depth < kMediumThreshold LevelSize
      else current_depth < kLowThreshold LevelSize)"

definition Push :: "nat \<Rightarrow> u32 \<Rightarrow> nat \<Rightarrow> 'a \<Rightarrow> 'a queues \<Rightarrow> bool \<times> 'a queues" where
  "Push Levels LevelSize level item queues =
     (if level \<ge> Levels then (False, queues)
      else case ring_Push (unat LevelSize) item (queues level) of
             (ok, r) \<Rightarrow> (ok, queues(level := r)))"

text \<open>\<^verbatim>\<open>static_cast<uint32_t>(queues_[level].Size())\<close> is \<open>of_nat\<close> into \<open>u32\<close>.\<close>

definition PushWithAdmission ::
  "nat \<Rightarrow> u32 \<Rightarrow> nat \<Rightarrow> 'a \<Rightarrow> 'a queues \<Rightarrow> bool \<times> 'a queues" where
  "PushWithAdmission Levels LevelSize level item queues =
     (if level \<ge> Levels then (False, queues)
      else if \<not> AdmitByPriority LevelSize level (of_nat (ring_Size (queues level)))
      then (False, queues)
      else case ring_Push (unat LevelSize) item (queues level) of
             (ok, r) \<Rightarrow> (ok, queues(level := r)))"

text \<open>
  \<^verbatim>\<open>Pop(item, out_level)\<close>: the \<^verbatim>\<open>for\<close> loop from level \<open>i\<close> on. \<open>None\<close> is the result
  \<^verbatim>\<open>false\<close> (neither out parameter written); \<open>Some (item, out_level, queues')\<close> is \<^verbatim>\<open>true\<close>.
\<close>

function Pop_from :: "nat \<Rightarrow> nat \<Rightarrow> 'a queues \<Rightarrow> ('a \<times> nat \<times> 'a queues) option" where
  "Pop_from Levels i queues =
     (if i < Levels then
        (case ring_Pop (queues i) of
           Some (item, r) \<Rightarrow> Some (item, i, queues(i := r))
         | None \<Rightarrow> Pop_from Levels (Suc i) queues)
      else None)"
  by pat_completeness auto
termination
  by (relation "measure (\<lambda>(Levels, i, queues). Levels - i)") auto

declare Pop_from.simps [simp del]

definition Pop :: "nat \<Rightarrow> 'a queues \<Rightarrow> ('a \<times> nat \<times> 'a queues) option" where
  "Pop Levels queues = Pop_from Levels 0 queues"

section \<open>The two state machines (fccu_hsm.hpp)\<close>

text \<open>Event identifiers of \<^verbatim>\<open>namespace evt\<close> (\<^verbatim>\<open>uint32_t\<close> constants).\<close>

definition kFaultReported :: nat where "kFaultReported = 1"
definition kAllCleared :: nat where "kAllCleared = 2"
definition kCriticalDetected :: nat where "kCriticalDetected = 3"
definition kShutdownReq :: nat where "kShutdownReq = 4"
definition kDegradeRecovered :: nat where "kDegradeRecovered = 5"
definition kDetected :: nat where "kDetected = 10"
definition kConfirmed :: nat where "kConfirmed = 11"
definition kRecoveryStart :: nat where "kRecoveryStart = 12"
definition kRecoveryDone :: nat where "kRecoveryDone = 13"
definition kClearFault :: nat where "kClearFault = 14"

lemmas evt_defs =
  kFaultReported_def kAllCleared_def kCriticalDetected_def kShutdownReq_def
  kDegradeRecovered_def kDetected_def kConfirmed_def kRecoveryStart_def
  kRecoveryDone_def kClearFault_def

record GlobalHsmContext =
  active_count :: u32
  critical_count :: u32
  ctx_shutdown_requested :: bool

datatype GlobalState = G_Idle | G_Active | G_Degraded | G_Shutdown

text \<open>\<^verbatim>\<open>class GlobalHsm\<close>: the context \<^verbatim>\<open>ctx_\<close> and the current state of \<^verbatim>\<open>sm_\<close>.\<close>

record GlobalHsm =
  g_ctx :: GlobalHsmContext
  g_state :: GlobalState

definition GlobalHsm_init :: GlobalHsm where
  "GlobalHsm_init =
     \<lparr>g_ctx = \<lparr>active_count = 0, critical_count = 0, ctx_shutdown_requested = False\<rparr>,
      g_state = G_Idle\<rparr>"

text \<open>
  Modelled from the spec: \<^verbatim>\<open>hsm::StateMachine::Dispatch\<close> (\<^verbatim>\<open>hsm/state_machine.hpp\<close>, an
  external header that is not part of the sources). An event takes the transition that
  the current state registered for it (running the transition's action), provided its
  guard holds; an event the current state has no transition for, or whose guard fails,
  is ignored. The transitions, guards and actions are those of \<^verbatim>\<open>GlobalHsm::Setup\<close>. The
  boolean that \<^verbatim>\<open>Dispatch\<close> returns is discarded by every caller and is not modelled.
\<close>

definition GlobalHsm_Dispatch :: "nat \<Rightarrow> GlobalHsm \<Rightarrow> GlobalHsm" where
  "GlobalHsm_Dispatch event_id h =
     (case g_state h of
        G_Idle \<Rightarrow>
          if event_id = kFaultReported then h\<lparr>g_state := G_Active\<rparr> else h
      | G_Active \<Rightarrow>
          if event_id = kAllCleared
          then h\<lparr>g_ctx := (g_ctx h)\<lparr>active_count := 0, critical_count := 0\<rparr>,
                 g_state := G_Idle\<rparr>
          else if event_id = kCriticalDetected then h\<lparr>g_state := G_Degraded\<rparr>
          else if event_id = kShutdownReq
          then h\<lparr>g_ctx := (g_ctx h)\<lparr>ctx_shutdown_requested := True\<rparr>,
                 g_state := G_Shutdown\<rparr>
          else h
      | G_Degraded \<Rightarrow>
          if event_id = kDegradeRecovered then h\<lparr>g_state := G_Active\<rparr>
          else if event_id = kShutdownReq
          then h\<lparr>g_ctx := (g_ctx h)\<lparr>ctx_shutdown_requested := True\<rparr>,
                 g_state := G_Shutdown\<rparr>
          else h
      | G_Shutdown \<Rightarrow> h)"

definition IsIdle :: "GlobalHsm \<Rightarrow> bool" where
  "IsIdle h = (g_state h = G_Idle)"

definition IsDegraded :: "GlobalHsm \<Rightarrow> bool" where
  "IsDegraded h = (g_state h = G_Degraded)"

record PerFaultContext =
  pf_fault_index :: nat
  pf_occurrence_count :: u32
  pf_err_threshold :: u32

datatype PerFaultState = P_Dormant | P_Detected | P_Active | P_Recovering | P_Cleared

record PerFaultHsm =
  p_ctx :: PerFaultContext
  p_state :: PerFaultState

definition PerFaultHsm_init :: PerFaultHsm where
  "PerFaultHsm_init =
     \<lparr>p_ctx = \<lparr>pf_fault_index = 0, pf_occurrence_count = 0, pf_err_threshold = 1\<rparr>,
      p_state = P_Dormant\<rparr>"

text \<open>
  Modelled from the spec: the same \<^verbatim>\<open>hsm::StateMachine::Dispatch\<close>, over the transitions
  of \<^verbatim>\<open>PerFaultHsm::Setup\<close>.
\<close>

definition PerFaultHsm_Dispatch :: "nat \<Rightarrow> PerFaultHsm \<Rightarrow> PerFaultHsm" where
  "PerFaultHsm_Dispatch event_id h =
     (case p_state h of
        P_Dormant \<Rightarrow>
          if event_id = kDetected
          then h\<lparr>p_ctx := (p_ctx h)\<lparr>pf_occurrence_count := 1\<rparr>, p_state := P_Detected\<rparr>
          else h
      | P_Detected \<Rightarrow>
          if event_id = kConfirmed
          then (if pf_err_threshold (p_ctx h) \<le> pf_occurrence_count (p_ctx h)
                then h\<lparr>p_state := P_Active\<rparr> else h)
          else if event_id = kDetected
          then h\<lparr>p_ctx := (p_ctx h)\<lparr>pf_occurrence_count :=
                      pf_occurrence_count (p_ctx h) + 1\<rparr>\<rparr>
          else if event_id = kClearFault then h\<lparr>p_state := P_Cleared\<rparr>
          else h
      | P_Active \<Rightarrow>
          if event_id = kRecoveryStart then h\<lparr>p_state := P_Recovering\<rparr>
          else if event_id = kClearFault then h\<lparr>p_state := P_Cleared\<rparr>
          else h
      | P_Recovering \<Rightarrow>
          if event_id = kRecoveryDone then h\<lparr>p_state := P_Cleared\<rparr> else h
      | P_Cleared \<Rightarrow>
          if event_id = kClearFault
          then h\<lparr>p_ctx := (p_ctx h)\<lparr>pf_occurrence_count := 0\<rparr>, p_state := P_Dormant\<rparr>
          else h)"

text \<open>\<^verbatim>\<open>Bind\<close> and \<^verbatim>\<open>Reset\<close>; \<^verbatim>\<open>sm_.Reset()\<close> returns the machine to its initial state.\<close>

definition PerFaultHsm_Bind :: "nat \<Rightarrow> u32 \<Rightarrow> PerFaultHsm \<Rightarrow> PerFaultHsm" where
  "PerFaultHsm_Bind fault_index threshold h =
     \<lparr>p_ctx = \<lparr>pf_fault_index = fault_index, pf_occurrence_count = 0,
               pf_err_threshold = threshold\<rparr>,
      p_state = P_Dormant\<rparr>"

definition PerFaultHsm_Reset :: "PerFaultHsm \<Rightarrow> PerFaultHsm" where
  "PerFaultHsm_Reset h =
     h\<lparr>p_ctx := (p_ctx h)\<lparr>pf_occurrence_count := 0\<rparr>, p_state := P_Dormant\<rparr>"

section \<open>The collector's data (fccu.hpp)\<close>

text \<open>
  Fault indices (\<^verbatim>\<open>uint16_t\<close>), levels (\<^verbatim>\<open>uint8_t\<close>) and the template parameters are natural
  numbers: the code only compares and indexes with them, behind its range checks.
  Counters are words and wrap as \<^verbatim>\<open>fetch_add\<close> and \<^verbatim>\<open>++\<close> do.
\<close>

record FaultEntry =
  fault_index :: nat
  priority :: FaultPriority
  reserved :: nat
  detail :: u32
  timestamp_us :: u64

record FaultEvent =
  ev_fault_index :: nat
  ev_priority :: FaultPriority
  ev_fault_code :: u32
  ev_detail :: u32
  ev_timestamp_us :: u64
  ev_occurrence_count :: u32
  ev_is_first :: bool

record RecentFaultInfo =
  rf_fault_index :: nat
  rf_detail :: u32
  rf_priority :: FaultPriority
  rf_timestamp_us :: u64

text \<open>
  Callbacks are function pointers with a \<^verbatim>\<open>void* ctx\<close>. The memory behind the context
  pointers, together with the platform clock, is the world \<open>'u\<close> outside the collector:
  a callback reads and updates the world, a hook also returns its \<^verbatim>\<open>HookAction\<close>. A null
  function pointer is \<open>None\<close>.
\<close>

type_synonym 'u FaultHookFn = "FaultEvent \<Rightarrow> 'u \<Rightarrow> HookAction \<times> 'u"
type_synonym 'u OverflowFn = "nat \<Rightarrow> FaultPriority \<Rightarrow> 'u \<Rightarrow> 'u"
type_synonym 'u ShutdownFn = "'u \<Rightarrow> 'u"
type_synonym 'u BusNotifyFn = "FaultEvent \<Rightarrow> 'u \<Rightarrow> 'u"

record 'u FaultTableEntry =
  fault_code :: u32
  attr :: u32
  err_threshold :: u32
  registered :: bool
  occurrence_count :: u32
  hook_fn :: "'u FaultHookFn option"

text \<open>
  The template parameters of \<^verbatim>\<open>FaultCollector\<close> and \<^verbatim>\<open>detail::SteadyNowUs\<close>, the reading of
  the steady clock (a function of the world, which it may advance).
\<close>

record 'u Config =
  MaxFaults :: nat
  QueueDepth :: u32
  QueueLevels :: nat
  MaxPerFaultHsm :: nat
  SteadyNowUs :: "'u \<Rightarrow> u64 \<times> 'u"

text \<open>The \<^verbatim>\<open>static_assert\<close>s of \<^verbatim>\<open>FaultCollector\<close> and \<^verbatim>\<open>FaultQueueSet\<close>.\<close>

definition valid_config :: "'u Config \<Rightarrow> bool" where
  "valid_config cfg =
     (1 \<le> MaxFaults cfg \<and> MaxFaults cfg \<le> 256 \<and>
      1 \<le> QueueLevels cfg \<and> QueueLevels cfg \<le> 8 \<and>
      MaxPerFaultHsm cfg \<le> 16 \<and>
      0 < QueueDepth cfg \<and> QueueDepth cfg AND (QueueDepth cfg - 1) = 0)"

definition kRecentRingSize :: nat where
  "kRecentRingSize = 16"

definition kBitmapWords :: "'u Config \<Rightarrow> nat" where
  "kBitmapWords cfg = (MaxFaults cfg + 63) div 64"

text \<open>
  The members of \<^verbatim>\<open>FaultCollector\<close>. Each \<^verbatim>\<open>std::array\<close> is a function from the index; the
  code reads and writes it below the array's size only. \<open>world\<close> is the memory outside the
  collector that the callbacks and the clock act on.
\<close>

record 'u FaultCollector =
  queue_set :: "FaultEntry queues"
  table :: "nat \<Rightarrow> 'u FaultTableEntry"
  active_bitmap :: "nat \<Rightarrow> u64"
  stats_total_reported :: u64
  stats_total_processed :: u64
  stats_total_dropped :: u64
  stats_reported :: "nat \<Rightarrow> u64"
  stats_dropped :: "nat \<Rightarrow> u64"
  default_hook_fn :: "'u FaultHookFn option"
  overflow_fn :: "'u OverflowFn option"
  shutdown_fn :: "'u ShutdownFn option"
  bus_notify_fn :: "'u BusNotifyFn option"
  global_hsm :: GlobalHsm
  per_fault_hsms :: "nat \<Rightarrow> PerFaultHsm"
  per_fault_hsm_map :: "nat \<Rightarrow> nat"
  per_fault_hsm_count :: nat
  recent_ring :: "nat \<Rightarrow> RecentFaultInfo"
  recent_head :: nat
  recent_count :: nat
  shutdown_requested :: bool
  world :: 'u

text \<open>The default member initialisers: a freshly constructed collector in world \<open>w\<close>.\<close>

definition FaultCollector_init :: "'u \<Rightarrow> 'u FaultCollector" where
  "FaultCollector_init w =
     \<lparr>queue_set = (\<lambda>_. []),
      table = (\<lambda>_. \<lparr>fault_code = 0, attr = 0, err_threshold = 1, registered = False,
                     occurrence_count = 0, hook_fn = None\<rparr>),
      active_bitmap = (\<lambda>_. 0),
      stats_total_reported = 0,
      stats_total_processed = 0,
      stats_total_dropped = 0,
      stats_reported = (\<lambda>_. 0),
      stats_dropped = (\<lambda>_. 0),
      default_hook_fn = None,
      overflow_fn = None,
      shutdown_fn = None,
      bus_notify_fn = None,
      global_hsm = GlobalHsm_init,
      per_fault_hsms = (\<lambda>_. PerFaultHsm_init),
      per_fault_hsm_map = (\<lambda>_. 0),
      per_fault_hsm_count = 0,
      recent_ring = (\<lambda>_. \<lparr>rf_fault_index = 0, rf_detail = 0, rf_priority = kMedium,
                           rf_timestamp_us = 0\<rparr>),
      recent_head = 0,
      recent_count = 0,
      shutdown_requested = False,
      world = w\<rparr>"

section \<open>Configuration operations\<close>

definition RegisterFault ::
  "'u Config \<Rightarrow> nat \<Rightarrow> u32 \<Rightarrow> u32 \<Rightarrow> u32 \<Rightarrow> 'u FaultCollector
     \<Rightarrow> FccuError \<times> 'u FaultCollector" where
  "RegisterFault cfg idx code attr_arg threshold c =
     (if idx \<ge> MaxFaults cfg then (kInvalidIndex, c)
      else if registered (table c idx) then (kAlreadyRegistered, c)
      else (kOk, c\<lparr>table := (table c)(idx := (table c idx)
                  \<lparr>fault_code := code, attr := attr_arg, err_threshold := threshold,
                   registered := True\<rparr>)\<rparr>))"

definition RegisterHook ::
  "'u Config \<Rightarrow> nat \<Rightarrow> 'u FaultHookFn option \<Rightarrow> 'u FaultCollector
     \<Rightarrow> FccuError \<times> 'u FaultCollector" where
  "RegisterHook cfg idx fn c =
     (if idx \<ge> MaxFaults cfg then (kInvalidIndex, c)
      else if \<not> registered (table c idx) then (kNotRegistered, c)
      else (kOk, c\<lparr>table := (table c)(idx := (table c idx)\<lparr>hook_fn := fn\<rparr>)\<rparr>))"

definition SetDefaultHook :: "'u FaultHookFn option \<Rightarrow> 'u FaultCollector \<Rightarrow> 'u FaultCollector" where
  "SetDefaultHook fn c = c\<lparr>default_hook_fn := fn\<rparr>"

definition SetOverflowCallback :: "'u OverflowFn option \<Rightarrow> 'u FaultCollector \<Rightarrow> 'u FaultCollector" where
  "SetOverflowCallback fn c = c\<lparr>overflow_fn := fn\<rparr>"

definition SetShutdownCallback :: "'u ShutdownFn option \<Rightarrow> 'u FaultCollector \<Rightarrow> 'u FaultCollector" where
  "SetShutdownCallback fn c = c\<lparr>shutdown_fn := fn\<rparr>"

definition SetBusNotifier :: "'u BusNotifyFn option \<Rightarrow> 'u FaultCollector \<Rightarrow> 'u FaultCollector" where
  "SetBusNotifier fn c = c\<lparr>bus_notify_fn := fn\<rparr>"

definition BindFaultHsm ::
  "'u Config \<Rightarrow> nat \<Rightarrow> u32 \<Rightarrow> 'u FaultCollector \<Rightarrow> FccuError \<times> 'u FaultCollector" where
  "BindFaultHsm cfg idx threshold c =
     (if idx \<ge> MaxFaults cfg then (kInvalidIndex, c)
      else if per_fault_hsm_count c \<ge> MaxPerFaultHsm cfg then (kHsmSlotFull, c)
      else let slot = per_fault_hsm_count c in
        (kOk, c\<lparr>per_fault_hsm_count := slot + 1,
                per_fault_hsm_map := (per_fault_hsm_map c)(slot := idx),
                per_fault_hsms := (per_fault_hsms c)
                  (slot := PerFaultHsm_Bind idx threshold (per_fault_hsms c slot))\<rparr>))"

section \<open>Private helpers of the collector\<close>

definition SetFaultActive :: "nat \<Rightarrow> 'u FaultCollector \<Rightarrow> 'u FaultCollector" where
  "SetFaultActive idx c =
     (let word_idx = idx div 64; bit_idx = idx mod 64 in
      c\<lparr>active_bitmap := (active_bitmap c)
           (word_idx := active_bitmap c word_idx OR push_bit bit_idx 1)\<rparr>)"

definition ClearFaultActive :: "nat \<Rightarrow> 'u FaultCollector \<Rightarrow> 'u FaultCollector" where
  "ClearFaultActive idx c =
     (let word_idx = idx div 64; bit_idx = idx mod 64 in
      c\<lparr>active_bitmap := (active_bitmap c)
           (word_idx := active_bitmap c word_idx AND NOT (push_bit bit_idx 1))\<rparr>)"

text \<open>\<^verbatim>\<open>detail::PopCount64\<close>: the number of set bits (\<^verbatim>\<open>__builtin_popcountll\<close>).\<close>

definition PopCount64 :: "u64 \<Rightarrow> nat" where
  "PopCount64 x = length (filter (bit x) [0..<64])"

text \<open>The sum of at most \<^verbatim>\<open>kBitmapWords\<close> population counts; it is only compared with 0.\<close>

definition ActiveFaultCount :: "'u Config \<Rightarrow> 'u FaultCollector \<Rightarrow> nat" where
  "ActiveFaultCount cfg c =
     sum_list (map (\<lambda>i. PopCount64 (active_bitmap c i)) [0..<kBitmapWords cfg])"

definition IsFaultActive :: "'u Config \<Rightarrow> nat \<Rightarrow> 'u FaultCollector \<Rightarrow> bool" where
  "IsFaultActive cfg idx c =
     (if idx \<ge> MaxFaults cfg then False
      else active_bitmap c (idx div 64) AND push_bit (idx mod 64) 1 \<noteq> 0)"

text \<open>\<^verbatim>\<open>DispatchPerFaultEvent\<close>: the \<^verbatim>\<open>for\<close> loop from slot \<open>i\<close> on; it stops at the first slot
  mapped to the index.\<close>

function DispatchPerFaultEvent_from ::
  "nat \<Rightarrow> nat \<Rightarrow> nat \<Rightarrow> 'u FaultCollector \<Rightarrow> 'u FaultCollector" where
  "DispatchPerFaultEvent_from i idx event_id c =
     (if i < per_fault_hsm_count c then
        (if per_fault_hsm_map c i = idx
         then c\<lparr>per_fault_hsms := (per_fault_hsms c)
                  (i := PerFaultHsm_Dispatch event_id (per_fault_hsms c i))\<rparr>
         else DispatchPerFaultEvent_from (Suc i) idx event_id c)
      else c)"
  by pat_completeness auto
termination
  by (relation "measure (\<lambda>(i, idx, event_id, c). per_fault_hsm_count c - i)") auto

declare DispatchPerFaultEvent_from.simps [simp del]

definition DispatchPerFaultEvent :: "nat \<Rightarrow> nat \<Rightarrow> 'u FaultCollector \<Rightarrow> 'u FaultCollector" where
  "DispatchPerFaultEvent idx event_id c = DispatchPerFaultEvent_from 0 idx event_id c"

definition AddToRecentRing :: "FaultEvent \<Rightarrow> 'u FaultCollector \<Rightarrow> 'u FaultCollector" where
  "AddToRecentRing ev c =
     c\<lparr>recent_ring := (recent_ring c)
          (recent_head c :=
             \<lparr>rf_fault_index = ev_fault_index ev, rf_detail = ev_detail ev,
              rf_priority = ev_priority ev, rf_timestamp_us = ev_timestamp_us ev\<rparr>),
       recent_head := (recent_head c + 1) mod kRecentRingSize,
       recent_count := (if recent_count c < kRecentRingSize then recent_count c + 1
                        else recent_count c)\<rparr>"

definition HandleEscalation ::
  "'u Config \<Rightarrow> FaultEntry \<Rightarrow> 'u FaultCollector \<Rightarrow> 'u FaultCollector" where
  "HandleEscalation cfg original c =
     (let pri = priority_u8 (priority original) in
      if pri = 0 then c
      else case SteadyNowUs cfg (world c) of (now, w) \<Rightarrow>
        let escalated = original\<lparr>priority := to_FaultPriority (pri - 1),
                                  timestamp_us := now\<rparr>
        in case Push (QueueLevels cfg) (QueueDepth cfg) (pri - 1) escalated (queue_set c) of
          (ok, qs) \<Rightarrow>
            let c1 = c\<lparr>queue_set := qs, world := w\<rparr> in
            if \<not> ok then c1\<lparr>stats_total_dropped := stats_total_dropped c1 + 1\<rparr> else c1)"

section \<open>Reporting (producer side)\<close>

text \<open>
  \<^verbatim>\<open>ReportFault\<close>, with its parts named: \<open>ReportFault_level\<close> is the clamped level,
  \<open>ReportFault_dropped\<close> the branch \<^verbatim>\<open>if (!pushed)\<close> (drop counters and overflow callback),
  \<open>ReportFault_admitted\<close> the statements after it (active bit, report counters, the
  per-fault and the global state machine).
\<close>

definition ReportFault_level :: "'u Config \<Rightarrow> FaultPriority \<Rightarrow> nat" where
  "ReportFault_level cfg pri =
     (if priority_u8 pri \<ge> QueueLevels cfg then QueueLevels cfg - 1 else priority_u8 pri)"

definition ReportFault_dropped ::
  "nat \<Rightarrow> FaultPriority \<Rightarrow> nat \<Rightarrow> 'u FaultCollector \<Rightarrow> 'u FaultCollector" where
  "ReportFault_dropped idx pri level c1 =
     (let c2 = c1\<lparr>stats_total_dropped := stats_total_dropped c1 + 1\<rparr>;
          c3 = (if level < 4
                then c2\<lparr>stats_dropped := (stats_dropped c2)
                           (level := stats_dropped c2 level + 1)\<rparr>
                else c2)
      in case overflow_fn c3 of
           None \<Rightarrow> c3
         | Some f \<Rightarrow> c3\<lparr>world := f idx pri (world c3)\<rparr>)"

definition ReportFault_admitted ::
  "nat \<Rightarrow> FaultPriority \<Rightarrow> nat \<Rightarrow> 'u FaultCollector \<Rightarrow> 'u FaultCollector" where
  "ReportFault_admitted idx pri level c1 =
     (let c2 = SetFaultActive idx c1;
          c3 = c2\<lparr>stats_total_reported := stats_total_reported c2 + 1\<rparr>;
          c4 = (if level < 4
                then c3\<lparr>stats_reported := (stats_reported c3)
                           (level := stats_reported c3 level + 1)\<rparr>
                else c3);
          c5 = DispatchPerFaultEvent idx kDetected c4;
          c6 = (if IsIdle (global_hsm c5)
                then c5\<lparr>global_hsm := GlobalHsm_Dispatch kFaultReported (global_hsm c5)\<rparr>
                else c5)
      in if pri = kCritical \<and> \<not> IsDegraded (global_hsm c6)
         then let h = GlobalHsm_Dispatch kCriticalDetected (global_hsm c6) in
           c6\<lparr>global_hsm := h\<lparr>g_ctx := (g_ctx h)
                 \<lparr>critical_count := critical_count (g_ctx h) + 1\<rparr>\<rparr>\<rparr>
         else c6)"

definition ReportFault ::
  "'u Config \<Rightarrow> nat \<Rightarrow> u32 \<Rightarrow> FaultPriority \<Rightarrow> 'u FaultCollector
     \<Rightarrow> FccuError \<times> 'u FaultCollector" where
  "ReportFault cfg idx det pri c =
     (if idx \<ge> MaxFaults cfg then (kInvalidIndex, c)
      else if \<not> registered (table c idx) then (kNotRegistered, c)
      else
        let level = ReportFault_level cfg pri
        in case SteadyNowUs cfg (world c) of (now, w) \<Rightarrow>
        let entry = \<lparr>fault_index = idx, priority = pri, reserved = 0, detail = det,
                     timestamp_us = now\<rparr>
        in case PushWithAdmission (QueueLevels cfg) (QueueDepth cfg) level entry (queue_set c) of
          (pushed, qs) \<Rightarrow>
        let c1 = c\<lparr>queue_set := qs, world := w\<rparr> in
        if \<not> pushed then (kQueueFull, ReportFault_dropped idx pri level c1)
        else (kOk, ReportFault_admitted idx pri level c1))"

section \<open>Processing (consumer side)\<close>

text \<open>
  \<^verbatim>\<open>ProcessEntry\<close> in its three consecutive parts. \<open>evt_data\<close> is the \<^verbatim>\<open>FaultEvent evt_data\<close> that
  it assembles from the entry and the descriptor (\<^verbatim>\<open>prev_count\<close> is the occurrence counter
  before the \<^verbatim>\<open>fetch_add\<close>). \<open>ProcessEntry_notify\<close> is the part up to the confirmation
  dispatch: the counter increment, the recent ring, the bus notifier, \<^verbatim>\<open>kConfirmed\<close>.
  \<open>ProcessEntry_hook\<close> is the hook invocation: the descriptor's hook, else the default hook,
  else \<^verbatim>\<open>kHandled\<close>. \<open>ProcessEntry_action\<close> is the \<^verbatim>\<open>switch\<close> on the action and the final
  \<^verbatim>\<open>stats_total_processed_\<close> increment.
\<close>

definition evt_data :: "FaultEntry \<Rightarrow> 'u FaultCollector \<Rightarrow> FaultEvent" where
  "evt_data entry c =
     (let idx = fault_index entry; prev_count = occurrence_count (table c idx) in
      \<lparr>ev_fault_index = idx, ev_priority = priority entry,
       ev_fault_code = fault_code (table c idx), ev_detail = detail entry,
       ev_timestamp_us = timestamp_us entry, ev_occurrence_count = prev_count + 1,
       ev_is_first = (prev_count = 0)\<rparr>)"

definition ProcessEntry_notify :: "FaultEntry \<Rightarrow> 'u FaultCollector \<Rightarrow> 'u FaultCollector" where
  "ProcessEntry_notify entry c =
     (let idx = fault_index entry;
          ev = evt_data entry c;
          c1 = c\<lparr>table := (table c)(idx := (table c idx)
                 \<lparr>occurrence_count := occurrence_count (table c idx) + 1\<rparr>)\<rparr>;
          c2 = AddToRecentRing ev c1;
          c3 = (case bus_notify_fn c2 of
                  None \<Rightarrow> c2
                | Some f \<Rightarrow> c2\<lparr>world := f ev (world c2)\<rparr>)
      in if err_threshold (table c3 idx) \<le> ev_occurrence_count ev
         then DispatchPerFaultEvent idx kConfirmed c3 else c3)"

definition ProcessEntry_hook ::
  "FaultEvent \<Rightarrow> nat \<Rightarrow> 'u FaultCollector \<Rightarrow> HookAction \<times> 'u FaultCollector" where
  "ProcessEntry_hook ev idx c =
     (case hook_fn (table c idx) of
        Some h \<Rightarrow> (case h ev (world c) of (action, w) \<Rightarrow> (action, c\<lparr>world := w\<rparr>))
      | None \<Rightarrow>
          (case default_hook_fn c of
             Some h \<Rightarrow> (case h ev (world c) of (action, w) \<Rightarrow> (action, c\<lparr>world := w\<rparr>))
           | None \<Rightarrow> (kHandled, c)))"

definition ProcessEntry_action ::
  "'u Config \<Rightarrow> HookAction \<Rightarrow> FaultEntry \<Rightarrow> 'u FaultCollector \<Rightarrow> 'u FaultCollector" where
  "ProcessEntry_action cfg action entry c =
     (let idx = fault_index entry;
          c1 = (case action of
                  kHandled \<Rightarrow>
                    let c2 = DispatchPerFaultEvent idx kClearFault (ClearFaultActive idx c) in
                    if ActiveFaultCount cfg c2 = 0
                    then c2\<lparr>global_hsm := GlobalHsm_Dispatch kAllCleared (global_hsm c2)\<rparr>
                    else c2
                | kEscalate \<Rightarrow> HandleEscalation cfg entry c
                | kDefer \<Rightarrow> c
                | kShutdown \<Rightarrow>
                    let c2 = c\<lparr>shutdown_requested := True,
                               global_hsm := GlobalHsm_Dispatch kShutdownReq (global_hsm c)\<rparr>
                    in case shutdown_fn c2 of
                         None \<Rightarrow> c2
                       | Some f \<Rightarrow> c2\<lparr>world := f (world c2)\<rparr>)
      in c1\<lparr>stats_total_processed := stats_total_processed c1 + 1\<rparr>)"

definition ProcessEntry ::
  "'u Config \<Rightarrow> FaultEntry \<Rightarrow> 'u FaultCollector \<Rightarrow> 'u FaultCollector" where
  "ProcessEntry cfg entry c =
     (if fault_index entry \<ge> MaxFaults cfg then c
      else case ProcessEntry_hook (evt_data entry c) (fault_index entry)
                  (ProcessEntry_notify entry c) of
             (action, c1) \<Rightarrow> ProcessEntry_action cfg action entry c1)"

section \<open>Termination of the drain loop\<close>

text \<open>What \<open>Pop\<close> returns, needed for the termination of \<^verbatim>\<open>ProcessFaults\<close>.\<close>

lemma Pop_from_None:
  "Pop_from Levels i queues = None \<longleftrightarrow> (\<forall>j. i \<le> j \<and> j < Levels \<longrightarrow> queues j = [])"
proof (induction Levels i queues rule: Pop_from.induct)
  case (1 Levels i queues)
  show ?case
  proof (cases "i < Levels")
    case False
    then show ?thesis by (auto simp: Pop_from.simps [of Levels i])
  next
    case True
    show ?thesis
    proof (cases "queues i")
      case Nil
      have "(\<forall>j. Suc i \<le> j \<and> j < Levels \<longrightarrow> queues j = []) \<longleftrightarrow>
            (\<forall>j. i \<le> j \<and> j < Levels \<longrightarrow> queues j = [])"
        using Nil by (metis Suc_leI le_neq_implies_less Suc_leD)
      with 1 True Nil show ?thesis
        by (simp add: Pop_from.simps [of Levels i] ring_Pop_def)
    next
      case (Cons x xs)
      with True show ?thesis
        by (auto simp: Pop_from.simps [of Levels i] ring_Pop_def)
    qed
  qed
qed

lemma Pop_from_Some:
  "Pop_from Levels i queues = Some (item, lvl, qs') \<Longrightarrow>
     i \<le> lvl \<and> lvl < Levels \<and> queues lvl \<noteq> [] \<and> item = hd (queues lvl) \<and>
     (\<forall>j. i \<le> j \<and> j < lvl \<longrightarrow> queues j = []) \<and> qs' = queues(lvl := tl (queues lvl))"
proof (induction Levels i queues rule: Pop_from.induct)
  case (1 Levels i queues)
  from "1.prems" have lt: "i < Levels"
    by (simp add: Pop_from.simps [of Levels i] split: if_splits)
  show ?case
  proof (cases "queues i")
    case Nil
    with lt "1.prems" have "Pop_from Levels (Suc i) queues = Some (item, lvl, qs')"
      by (simp add: Pop_from.simps [of Levels i] ring_Pop_def)
    with "1.IH" lt Nil
    have IH: "Suc i \<le> lvl \<and> lvl < Levels \<and> queues lvl \<noteq> [] \<and> item = hd (queues lvl) \<and>
      (\<forall>j. Suc i \<le> j \<and> j < lvl \<longrightarrow> queues j = []) \<and> qs' = queues(lvl := tl (queues lvl))"
      by (simp add: ring_Pop_def fun_upd_def)
    have "\<forall>j. i \<le> j \<and> j < lvl \<longrightarrow> queues j = []"
      using IH Nil by (metis Suc_leI le_neq_implies_less)
    moreover have "i \<le> lvl" using IH by linarith
    ultimately show ?thesis using IH by blast
  next
    case (Cons x xs)
    with lt "1.prems" show ?thesis
      by (auto simp: Pop_from.simps [of Levels i] ring_Pop_def)
  qed
qed

text \<open>
  Every pass of the \<^verbatim>\<open>while\<close> loop of \<^verbatim>\<open>ProcessFaults\<close> pops one entry, and an escalation puts
  back at most one entry of the next higher priority: the queued entries, each weighted by
  its priority plus one, decrease.
\<close>

definition entry_weight :: "FaultEntry \<Rightarrow> nat" where
  "entry_weight e = Suc (priority_u8 (priority e))"

definition drain_weight :: "nat \<Rightarrow> FaultEntry queues \<Rightarrow> nat" where
  "drain_weight Levels qs = (\<Sum>i<Levels. sum_list (map entry_weight (qs i)))"

lemma sum_fun_upd:
  fixes g :: "'a \<Rightarrow> nat" and l L :: nat
  assumes "l < L"
  shows "(\<Sum>i<L. g ((q(l := x)) i)) + g (q l) = (\<Sum>i<L. g (q i)) + g x"
proof -
  have "(\<Sum>i<L. g ((q(l := x)) i))
          = g ((q(l := x)) l) + (\<Sum>i\<in>{..<L} - {l}. g ((q(l := x)) i))"
    using assms by (intro sum.remove) auto
  moreover have "(\<Sum>i\<in>{..<L} - {l}. g ((q(l := x)) i)) = (\<Sum>i\<in>{..<L} - {l}. g (q i))"
    by (intro sum.cong) auto
  moreover have "(\<Sum>i<L. g (q i)) = g (q l) + (\<Sum>i\<in>{..<L} - {l}. g (q i))"
    using assms by (intro sum.remove) auto
  ultimately show ?thesis by simp
qed

lemma drain_weight_Pop:
  assumes "Pop Levels qs = Some (e, l, qs')"
  shows "drain_weight Levels qs = drain_weight Levels qs' + entry_weight e"
proof -
  from assms have P: "l < Levels" "qs l \<noteq> []" "e = hd (qs l)" "qs' = qs(l := tl (qs l))"
    using Pop_from_Some [of Levels 0 qs e l qs'] by (simp_all add: Pop_def)
  have "qs l = e # tl (qs l)" using P by simp
  then have "sum_list (map entry_weight (qs l)) = entry_weight e + sum_list (map entry_weight (tl (qs l)))"
    by (metis list.simps(9) sum_list.Cons)
  with sum_fun_upd [OF P(1), of "\<lambda>r. sum_list (map entry_weight r)" qs "tl (qs l)"]
  show ?thesis by (simp add: drain_weight_def P(4))
qed

lemma drain_weight_Push:
  assumes "Push Levels LevelSize l e qs = (ok, qs')"
  shows "drain_weight Levels qs' \<le> drain_weight Levels qs + entry_weight e"
proof (cases "l < Levels \<and> length (qs l) < unat LevelSize")
  case False
  with assms have "qs' = qs"
    by (auto simp: Push_def ring_Push_def split: if_splits)
  then show ?thesis by simp
next
  case True
  with assms have "qs' = qs(l := qs l @ [e])"
    by (auto simp: Push_def ring_Push_def split: if_splits)
  with sum_fun_upd [of l Levels "\<lambda>r. sum_list (map entry_weight r)" qs "qs l @ [e]"] True
  show ?thesis by (simp add: drain_weight_def)
qed

text \<open>\<^verbatim>\<open>DispatchPerFaultEvent\<close> changes the per-fault state machines only.\<close>

lemma DispatchPerFaultEvent_from_frame:
  "\<exists>h. DispatchPerFaultEvent_from i idx ev c = c\<lparr>per_fault_hsms := h\<rparr>"
proof (induction i idx ev c rule: DispatchPerFaultEvent_from.induct)
  case (1 i idx ev c)
  show ?case
  proof (cases "i < per_fault_hsm_count c")
    case False
    then have "DispatchPerFaultEvent_from i idx ev c = c\<lparr>per_fault_hsms := per_fault_hsms c\<rparr>"
      by (subst DispatchPerFaultEvent_from.simps) simp
    then show ?thesis by blast
  next
    case True
    show ?thesis
    proof (cases "per_fault_hsm_map c i = idx")
      case hit: True
      with True show ?thesis
        by (subst DispatchPerFaultEvent_from.simps) auto
    next
      case miss: False
      with True have "DispatchPerFaultEvent_from i idx ev c
                       = DispatchPerFaultEvent_from (Suc i) idx ev c"
        by (subst DispatchPerFaultEvent_from.simps) simp
      with 1 True miss show ?thesis by simp
    qed
  qed
qed

lemma DispatchPerFaultEvent_frame:
  "DispatchPerFaultEvent idx ev c =
     c\<lparr>per_fault_hsms := per_fault_hsms (DispatchPerFaultEvent idx ev c)\<rparr>"
proof -
  obtain h where "DispatchPerFaultEvent idx ev c = c\<lparr>per_fault_hsms := h\<rparr>"
    unfolding DispatchPerFaultEvent_def using DispatchPerFaultEvent_from_frame by blast
  then show ?thesis by simp
qed

lemma DispatchPerFaultEvent_fields [simp]:
  "queue_set (DispatchPerFaultEvent idx ev c) = queue_set c"
  "table (DispatchPerFaultEvent idx ev c) = table c"
  "active_bitmap (DispatchPerFaultEvent idx ev c) = active_bitmap c"
  "stats_total_reported (DispatchPerFaultEvent idx ev c) = stats_total_reported c"
  "stats_total_processed (DispatchPerFaultEvent idx ev c) = stats_total_processed c"
  "stats_total_dropped (DispatchPerFaultEvent idx ev c) = stats_total_dropped c"
  "stats_reported (DispatchPerFaultEvent idx ev c) = stats_reported c"
  "stats_dropped (DispatchPerFaultEvent idx ev c) = stats_dropped c"
  "default_hook_fn (DispatchPerFaultEvent idx ev c) = default_hook_fn c"
  "overflow_fn (DispatchPerFaultEvent idx ev c) = overflow_fn c"
  "shutdown_fn (DispatchPerFaultEvent idx ev c) = shutdown_fn c"
  "bus_notify_fn (DispatchPerFaultEvent idx ev c) = bus_notify_fn c"
  "global_hsm (DispatchPerFaultEvent idx ev c) = global_hsm c"
  "per_fault_hsm_map (DispatchPerFaultEvent idx ev c) = per_fault_hsm_map c"
  "per_fault_hsm_count (DispatchPerFaultEvent idx ev c) = per_fault_hsm_count c"
  "recent_ring (DispatchPerFaultEvent idx ev c) = recent_ring c"
  "recent_head (DispatchPerFaultEvent idx ev c) = recent_head c"
  "recent_count (DispatchPerFaultEvent idx ev c) = recent_count c"
  "shutdown_requested (DispatchPerFaultEvent idx ev c) = shutdown_requested c"
  "world (DispatchPerFaultEvent idx ev c) = world c"
  by (subst DispatchPerFaultEvent_frame, simp)+

lemma queue_set_ProcessEntry_notify [simp]:
  "queue_set (ProcessEntry_notify entry c) = queue_set c"
  by (simp add: ProcessEntry_notify_def Let_def AddToRecentRing_def split: option.splits)

lemma queue_set_ProcessEntry_hook [simp]:
  "queue_set (snd (ProcessEntry_hook ev idx c)) = queue_set c"
  by (simp add: ProcessEntry_hook_def split: option.splits prod.splits)

lemma priority_u8_pred:
  "priority_u8 (to_FaultPriority (priority_u8 p - 1)) = priority_u8 p - 1"
  by (cases p) (simp_all add: to_FaultPriority_def)

lemma drain_weight_HandleEscalation:
  "drain_weight (QueueLevels cfg) (queue_set (HandleEscalation cfg e c))
     \<le> drain_weight (QueueLevels cfg) (queue_set c) + priority_u8 (priority e)"
proof (cases "priority_u8 (priority e) = 0")
  case True
  then show ?thesis by (simp add: HandleEscalation_def)
next
  case False
  obtain now w where clk: "SteadyNowUs cfg (world c) = (now, w)"
    by (cases "SteadyNowUs cfg (world c)")
  define esc where
    "esc = e\<lparr>priority := to_FaultPriority (priority_u8 (priority e) - 1), timestamp_us := now\<rparr>"
  obtain ok qs where push:
    "Push (QueueLevels cfg) (QueueDepth cfg) (priority_u8 (priority e) - 1) esc (queue_set c)
       = (ok, qs)"
    by (cases "Push (QueueLevels cfg) (QueueDepth cfg) (priority_u8 (priority e) - 1) esc
                 (queue_set c)")
  have "entry_weight esc = priority_u8 (priority e)"
    using False priority_u8_pred [of "priority e"] by (simp add: esc_def entry_weight_def)
  with drain_weight_Push [OF push]
  have "drain_weight (QueueLevels cfg) qs
          \<le> drain_weight (QueueLevels cfg) (queue_set c) + priority_u8 (priority e)"
    by simp
  moreover have "queue_set (HandleEscalation cfg e c) = qs"
    using False clk push by (simp add: HandleEscalation_def Let_def esc_def)
  ultimately show ?thesis by simp
qed

lemma drain_weight_ProcessEntry_action:
  "drain_weight (QueueLevels cfg) (queue_set (ProcessEntry_action cfg a e c))
     \<le> drain_weight (QueueLevels cfg) (queue_set c) + priority_u8 (priority e)"
  using drain_weight_HandleEscalation [of cfg e c]
  by (cases a)
     (simp_all add: ProcessEntry_action_def Let_def ClearFaultActive_def split: option.splits)

lemma drain_weight_ProcessEntry:
  "drain_weight (QueueLevels cfg) (queue_set (ProcessEntry cfg e c))
     \<le> drain_weight (QueueLevels cfg) (queue_set c) + priority_u8 (priority e)"
proof (cases "fault_index e \<ge> MaxFaults cfg")
  case True
  then show ?thesis by (simp add: ProcessEntry_def)
next
  case False
  obtain a c1 where h: "ProcessEntry_hook (evt_data e c) (fault_index e) (ProcessEntry_notify e c) = (a, c1)"
    by (cases "ProcessEntry_hook (evt_data e c) (fault_index e) (ProcessEntry_notify e c)")
  then have "queue_set c1 = queue_set c"
    using queue_set_ProcessEntry_hook [of "evt_data e c" "fault_index e" "ProcessEntry_notify e c"]
    by simp
  with drain_weight_ProcessEntry_action [of cfg a e c1] False h
  show ?thesis by (simp add: ProcessEntry_def)
qed

function ProcessFaults_loop ::
  "'u Config \<Rightarrow> 'u FaultCollector \<Rightarrow> u32 \<Rightarrow> u32 \<times> 'u FaultCollector" where
  "ProcessFaults_loop cfg c total' =
     (case Pop (QueueLevels cfg) (queue_set c) of
        None \<Rightarrow> (total', c)
      | Some (entry, level, qs) \<Rightarrow>
          ProcessFaults_loop cfg (ProcessEntry cfg entry (c\<lparr>queue_set := qs\<rparr>)) (total' + 1))"
  by pat_completeness auto
termination
proof (relation "measure (\<lambda>(cfg, c, total'). drain_weight (QueueLevels cfg) (queue_set c))",
    goal_cases)
  case 1
  show ?case by simp
next
  case (2 cfg c total' x2 entry y level qs)
  then have "Pop (QueueLevels cfg) (queue_set c) = Some (entry, level, qs)" by simp
  from drain_weight_Pop [OF this]
    drain_weight_ProcessEntry [of cfg entry "c\<lparr>queue_set := qs\<rparr>"]
  show ?case by (simp add: entry_weight_def)
qed

declare ProcessFaults_loop.simps [simp del]

definition ProcessFaults :: "'u Config \<Rightarrow> 'u FaultCollector \<Rightarrow> u32 \<times> 'u FaultCollector" where
  "ProcessFaults cfg c =
     (if shutdown_requested c then (0, c) else ProcessFaults_loop cfg c 0)"

definition IsShutdownRequested :: "'u FaultCollector \<Rightarrow> bool" where
  "IsShutdownRequested c = shutdown_requested c"

section \<open>Clearing and statistics\<close>

definition ClearFault :: "'u Config \<Rightarrow> nat \<Rightarrow> 'u FaultCollector \<Rightarrow> 'u FaultCollector" where
  "ClearFault cfg idx c =
     (if idx \<ge> MaxFaults cfg then c
      else
        let c1 = ClearFaultActive idx c;
            c2 = c1\<lparr>table := (table c1)(idx := (table c1 idx)\<lparr>occurrence_count := 0\<rparr>)\<rparr>;
            c3 = DispatchPerFaultEvent idx kClearFault c2
        in if ActiveFaultCount cfg c3 = 0
           then c3\<lparr>global_hsm := GlobalHsm_Dispatch kAllCleared (global_hsm c3)\<rparr>
           else c3)"

definition ClearAllFaults :: "'u Config \<Rightarrow> 'u FaultCollector \<Rightarrow> 'u FaultCollector" where
  "ClearAllFaults cfg c =
     c\<lparr>active_bitmap := fold (\<lambda>i b. b(i := 0)) [0..<kBitmapWords cfg] (active_bitmap c),
       table := fold (\<lambda>i t. t(i := (t i)\<lparr>occurrence_count := 0\<rparr>)) [0..<MaxFaults cfg]
                  (table c),
       per_fault_hsms := fold (\<lambda>i h. h(i := PerFaultHsm_Reset (h i)))
                  [0..<per_fault_hsm_count c] (per_fault_hsms c),
       global_hsm := GlobalHsm_Dispatch kAllCleared (global_hsm c)\<rparr>"

definition ResetStatistics :: "'u FaultCollector \<Rightarrow> 'u FaultCollector" where
  "ResetStatistics c =
     c\<lparr>stats_total_reported := 0,
       stats_total_processed := 0,
       stats_total_dropped := 0,
       stats_reported := fold (\<lambda>i r. r(i := 0)) [0..<4] (stats_reported c),
       stats_dropped := fold (\<lambda>i r. r(i := 0)) [0..<4] (stats_dropped c)\<rparr>"

section \<open>Runs of the collector\<close>

text \<open>
  The public members that change the collector, as operations; a run applies a sequence of
  them. (\<^verbatim>\<open>GetReporter().Report\<close> is \<^verbatim>\<open>ReportFault\<close>; the remaining members are \<^verbatim>\<open>const\<close>.)
\<close>

datatype 'u Op =
    OpRegisterFault nat u32 u32 u32
  | OpRegisterHook nat "'u FaultHookFn option"
  | OpSetDefaultHook "'u FaultHookFn option"
  | OpSetOverflowCallback "'u OverflowFn option"
  | OpSetShutdownCallback "'u ShutdownFn option"
  | OpSetBusNotifier "'u BusNotifyFn option"
  | OpBindFaultHsm nat u32
  | OpReportFault nat u32 FaultPriority
  | OpProcessFaults
  | OpClearFault nat
  | OpClearAllFaults
  | OpResetStatistics

fun apply_op :: "'u Config \<Rightarrow> 'u Op \<Rightarrow> 'u FaultCollector \<Rightarrow> 'u FaultCollector" where
  "apply_op cfg (OpRegisterFault idx code attr_arg threshold) c =
     snd (RegisterFault cfg idx code attr_arg threshold c)"
| "apply_op cfg (OpRegisterHook idx fn) c = snd (RegisterHook cfg idx fn c)"
| "apply_op cfg (OpSetDefaultHook fn) c = SetDefaultHook fn c"
| "apply_op cfg (OpSetOverflowCallback fn) c = SetOverflowCallback fn c"
| "apply_op cfg (OpSetShutdownCallback fn) c = SetShutdownCallback fn c"
| "apply_op cfg (OpSetBusNotifier fn) c = SetBusNotifier fn c"
| "apply_op cfg (OpBindFaultHsm idx threshold) c = snd (BindFaultHsm cfg idx threshold c)"
| "apply_op cfg (OpReportFault idx det pri) c = snd (ReportFault cfg idx det pri c)"
| "apply_op cfg OpProcessFaults c = snd (ProcessFaults cfg c)"
| "apply_op cfg (OpClearFault idx) c = ClearFault cfg idx c"
| "apply_op cfg OpClearAllFaults c = ClearAllFaults cfg c"
| "apply_op cfg OpResetStatistics c = ResetStatistics c"

definition run :: "'u Config \<Rightarrow> 'u Op list \<Rightarrow> 'u FaultCollector \<Rightarrow> 'u FaultCollector" where
  "run cfg ops c = fold (apply_op cfg) ops c"

text \<open>
  One pass of the \<^verbatim>\<open>while\<close> loop of \<^verbatim>\<open>ProcessFaults\<close>: \<open>Pop\<close> and, when it yields an entry,
  \<^verbatim>\<open>ProcessEntry\<close> on it. A step is a public operation or one such pass, so that the steps
  from a collector lead to every state in which \<^verbatim>\<open>ProcessFaults\<close> pops an entry: at the
  start of a call and in the middle of its loop.
\<close>

definition ProcessFaults_iteration :: "'u Config \<Rightarrow> 'u FaultCollector \<Rightarrow> 'u FaultCollector" where
  "ProcessFaults_iteration cfg c =
     (case Pop (QueueLevels cfg) (queue_set c) of
        None \<Rightarrow> c
      | Some (entry, level, qs) \<Rightarrow> ProcessEntry cfg entry (c\<lparr>queue_set := qs\<rparr>))"

datatype 'u Step = Operation "'u Op" | Iteration

fun apply_step :: "'u Config \<Rightarrow> 'u Step \<Rightarrow> 'u FaultCollector \<Rightarrow> 'u FaultCollector" where
  "apply_step cfg (Operation op) c = apply_op cfg op c"
| "apply_step cfg Iteration c = ProcessFaults_iteration cfg c"

definition progress :: "'u Config \<Rightarrow> 'u Step list \<Rightarrow> 'u FaultCollector \<Rightarrow> 'u FaultCollector" where
  "progress cfg steps c = fold (apply_step cfg) steps c"

text \<open>
  The slot that \<^verbatim>\<open>DispatchPerFaultEvent\<close> finds for a fault index: the first occupied slot
  mapped to it, if any.
\<close>

definition bound_slot :: "'u FaultCollector \<Rightarrow> nat \<Rightarrow> nat option" where
  "bound_slot c idx = find (\<lambda>s. per_fault_hsm_map c s = idx) [0..<per_fault_hsm_count c]"

section \<open>Example configurations, hooks and collectors\<close>

text \<open>
  \<^verbatim>\<open>FaultCollector<16, 8, 4, 4>\<close> (the collector of the unit tests) and
  \<^verbatim>\<open>FaultCollector<16, 8, 2, 4>\<close>. Their world is a counter: the clock returns it and
  advances it by one.
\<close>

definition TestConfig :: "nat Config" where
  "TestConfig = \<lparr>MaxFaults = 16, QueueDepth = 8, QueueLevels = 4, MaxPerFaultHsm = 4,
                  SteadyNowUs = (\<lambda>w. (of_nat w, Suc w))\<rparr>"

definition TwoLevelConfig :: "nat Config" where
  "TwoLevelConfig = \<lparr>MaxFaults = 16, QueueDepth = 8, QueueLevels = 2, MaxPerFaultHsm = 4,
                      SteadyNowUs = (\<lambda>w. (of_nat w, Suc w))\<rparr>"

definition EscalateHook :: "nat FaultHookFn" where
  "EscalateHook ev w = (kEscalate, w)"

definition ShutdownHook :: "nat FaultHookFn" where
  "ShutdownHook ev w = (kShutdown, w)"

definition DeferHook :: "nat FaultHookFn" where
  "DeferHook ev w = (kDefer, w)"

text \<open>Fault 0 registered with code \<^verbatim>\<open>0x1001\<close> in a fresh collector.\<close>

definition c_registered :: "nat FaultCollector" where
  "c_registered = run TestConfig [OpRegisterFault 0 0x1001 0 1] (FaultCollector_init 0)"

text \<open>Fault 0 with a hook that asks for shutdown and a shutdown callback, reported once.\<close>

definition c_shutdown_pending :: "nat FaultCollector" where
  "c_shutdown_pending =
     run TestConfig
       [OpRegisterFault 0 0x1001 0 1, OpRegisterHook 0 (Some ShutdownHook),
        OpSetShutdownCallback (Some (\<lambda>w. w + 100)), OpReportFault 0 0 kMedium]
       (FaultCollector_init 0)"

definition c_shutdown :: "nat FaultCollector" where
  "c_shutdown = snd (ProcessFaults TestConfig c_shutdown_pending)"

text \<open>Two levels only: fault 0 with a hook that escalates, reported once at priority Low.\<close>

definition c_escalating :: "nat FaultCollector" where
  "c_escalating =
     run TwoLevelConfig
       [OpRegisterFault 0 0x1001 0 1, OpRegisterHook 0 (Some EscalateHook),
        OpReportFault 0 0 kLow]
       (FaultCollector_init 0)"

text \<open>Fault 0 with a per-fault state machine bound to it, reported once (hook defers).\<close>

definition c_bound :: "nat FaultCollector" where
  "c_bound =
     run TestConfig
       [OpRegisterFault 0 0x1001 0 1, OpRegisterHook 0 (Some DeferHook), OpBindFaultHsm 0 1,
        OpReportFault 0 0 kMedium]
       (FaultCollector_init 0)"

text \<open>The index 0 bound twice.\<close>

definition c_bound_twice :: "nat FaultCollector" where
  "c_bound_twice = run TestConfig [OpBindFaultHsm 0 1, OpBindFaultHsm 0 1] (FaultCollector_init 0)"

text \<open>Queue sets of numbers, for \<open>Pop\<close> and \<open>PushWithAdmission\<close>.\<close>

definition q_low_four :: "nat queues" where
  "q_low_four = (\<lambda>_. [])(3 := [1, 2, 3, 4])"

definition q_two_levels :: "nat queues" where
  "q_two_levels = (\<lambda>_. [])(1 := [5, 6], 3 := [7])"

text \<open>The entry that this report queued, and the collector once \<open>Pop\<close> has taken it.\<close>

definition entry_reported :: FaultEntry where
  "entry_reported = \<lparr>fault_index = 0, priority = kMedium, reserved = 0, detail = 0,
                      timestamp_us = 0\<rparr>"

definition c_shutdown_popped :: "nat FaultCollector" where
  "c_shutdown_popped = c_shutdown_pending\<lparr>queue_set := (\<lambda>_. [])\<rparr>"

text \<open>
  A descriptor that is registered with a given code: what \<^verbatim>\<open>RegisterFault\<close> establishes and
  no operation changes afterwards.
\<close>

definition descriptor_is :: "'u FaultCollector \<Rightarrow> nat \<Rightarrow> u32 \<Rightarrow> bool" where
  "descriptor_is c i code = (registered (table c i) \<and> fault_code (table c i) = code)"

text \<open>
  A collector whose world is the list of the events that its callbacks have received: the
  bus notifier and the hook of fault 0 (which returns \<^verbatim>\<open>kHandled\<close>) both append their event.
\<close>

definition LogConfig :: "FaultEvent list Config" where
  "LogConfig = \<lparr>MaxFaults = 16, QueueDepth = 8, QueueLevels = 4, MaxPerFaultHsm = 4,
                 SteadyNowUs = (\<lambda>w. (0, w))\<rparr>"

definition log_ops :: "FaultEvent list Op list" where
  "log_ops = [OpSetBusNotifier (Some (\<lambda>ev w. w @ [ev])),
              OpRegisterHook 0 (Some (\<lambda>ev w. (kHandled, w @ [ev])))]"

definition c_log_registered :: "FaultEvent list FaultCollector" where
  "c_log_registered = snd (RegisterFault LogConfig 0 0x1001 0 1 (FaultCollector_init []))"

definition c_log_reported :: "FaultEvent list FaultCollector" where
  "c_log_reported = snd (ReportFault LogConfig 0 0xAA kMedium (run LogConfig log_ops c_log_registered))"

text \<open>
  The per-fault state machines after \<^verbatim>\<open>ClearFault(i)\<close>: \<^verbatim>\<open>kClearFault\<close> dispatched to the slot
  bound to \<open>i\<close>.
\<close>

definition ClearFault_hsms :: "'u FaultCollector \<Rightarrow> nat \<Rightarrow> nat \<Rightarrow> PerFaultHsm" where
  "ClearFault_hsms c i =
     (case bound_slot c i of
        None \<Rightarrow> per_fault_hsms c
      | Some s \<Rightarrow> (per_fault_hsms c)
          (s := PerFaultHsm_Dispatch kClearFault (per_fault_hsms c s)))"

text \<open>
  The statistics invariant in the words of the specification: the total equals the sum of
  the four per-priority counters.
\<close>

definition reported_consistent :: "'u FaultCollector \<Rightarrow> bool" where
  "reported_consistent c =
     (stats_total_reported c
        = stats_reported c 0 + stats_reported c 1 + stats_reported c 2 + stats_reported c 3)"

definition dropped_consistent :: "'u FaultCollector \<Rightarrow> bool" where
  "dropped_consistent c =
     (stats_total_dropped c
        = stats_dropped c 0 + stats_dropped c 1 + stats_dropped c 2 + stats_dropped c 3)"

text \<open>
  The entry that the report of the logging collector queues, the event that processing
  builds for it, the collector after one more report (of priority Low), and that collector
  once \<open>Pop\<close> has taken the first entry.
\<close>

definition e_log :: FaultEntry where
  "e_log = \<lparr>fault_index = 0, priority = kMedium, reserved = 0, detail = 0xAA,
             timestamp_us = 0\<rparr>"

definition ev_log :: FaultEvent where
  "ev_log = \<lparr>ev_fault_index = 0, ev_priority = kMedium, ev_fault_code = 0x1001,
              ev_detail = 0xAA, ev_timestamp_us = 0, ev_occurrence_count = 1,
              ev_is_first = True\<rparr>"

definition c_log_later :: "FaultEvent list FaultCollector" where
  "c_log_later = progress LogConfig [Operation (OpReportFault 0 0xCC kLow)] c_log_reported"

definition c_log_popped :: "FaultEvent list FaultCollector" where
  "c_log_popped = c_log_later\<lparr>queue_set := (queue_set c_log_later)(2 := [])\<rparr>"

text \<open>The equations that evaluate the operations on these examples.\<close>

lemmas eval_defs =
  TestConfig_def TwoLevelConfig_def EscalateHook_def ShutdownHook_def DeferHook_def
  c_registered_def c_shutdown_pending_def c_shutdown_def c_escalating_def c_bound_def
  c_bound_twice_def q_low_four_def q_two_levels_def run_def entry_reported_def
  c_shutdown_popped_def LogConfig_def log_ops_def c_log_registered_def c_log_reported_def
  e_log_def ev_log_def c_log_later_def c_log_popped_def progress_def apply_step.simps
  ProcessFaults_iteration_def
  FaultCollector_init_def GlobalHsm_init_def PerFaultHsm_init_def
  RegisterFault_def RegisterHook_def SetDefaultHook_def SetOverflowCallback_def
  SetShutdownCallback_def SetBusNotifier_def BindFaultHsm_def
  ReportFault_def ReportFault_level_def ReportFault_dropped_def ReportFault_admitted_def
  PushWithAdmission_def Push_def AdmitByPriority_def ring_Push_def ring_Pop_def ring_Size_def
  kHighThreshold_def kMediumThreshold_def kLowThreshold_def
  SetFaultActive_def ClearFaultActive_def IsIdle_def IsDegraded_def GlobalHsm_Dispatch_def
  PerFaultHsm_Dispatch_def PerFaultHsm_Bind_def PerFaultHsm_Reset_def
  DispatchPerFaultEvent_def DispatchPerFaultEvent_from.simps evt_defs Let_def
  ProcessEntry_def ProcessEntry_notify_def ProcessEntry_hook_def ProcessEntry_action_def
  evt_data_def AddToRecentRing_def HandleEscalation_def kRecentRingSize_def
  ProcessFaults_def ProcessFaults_loop.simps Pop_def Pop_from.simps
  ActiveFaultCount_def kBitmapWords_def to_FaultPriority_def
  ClearFault_def ClearAllFaults_def ResetStatistics_def IsShutdownRequested_def
  bound_slot_def

section \<open>The population count\<close>

text \<open>The collector only asks whether the count of active faults is 0.\<close>

lemma PopCount64_eq_0_iff [simp]: "PopCount64 x = 0 \<longleftrightarrow> x = 0"
proof
  assume "PopCount64 x = 0"
  then have "\<forall>n<64. \<not> bit x n"
    by (auto simp: PopCount64_def filter_empty_conv)
  then show "x = 0"
    by (intro bit_word_eqI) simp
next
  assume "x = 0"
  then show "PopCount64 x = 0"
    by (simp add: PopCount64_def)
qed

section \<open>The shutdown flag is never reset\<close>

lemma shutdown_requested_ProcessEntry_notify [simp]:
  "shutdown_requested (ProcessEntry_notify e c) = shutdown_requested c"
  by (simp add: ProcessEntry_notify_def Let_def AddToRecentRing_def split: option.splits)

lemma shutdown_requested_ProcessEntry_hook [simp]:
  "shutdown_requested (snd (ProcessEntry_hook ev idx c)) = shutdown_requested c"
  by (simp add: ProcessEntry_hook_def split: option.splits prod.splits)

lemma shutdown_requested_HandleEscalation [simp]:
  "shutdown_requested (HandleEscalation cfg e c) = shutdown_requested c"
  by (simp add: HandleEscalation_def Let_def split: prod.splits)

lemma shutdown_requested_ProcessEntry_action:
  "shutdown_requested c \<Longrightarrow> shutdown_requested (ProcessEntry_action cfg a e c)"
  by (cases a)
     (simp_all add: ProcessEntry_action_def Let_def ClearFaultActive_def split: option.splits)

lemma shutdown_requested_ProcessEntry:
  "shutdown_requested c \<Longrightarrow> shutdown_requested (ProcessEntry cfg e c)"
proof -
  assume sd: "shutdown_requested c"
  obtain a c1 where h:
    "ProcessEntry_hook (evt_data e c) (fault_index e) (ProcessEntry_notify e c) = (a, c1)"
    by (cases "ProcessEntry_hook (evt_data e c) (fault_index e) (ProcessEntry_notify e c)")
  have "shutdown_requested c1"
    using shutdown_requested_ProcessEntry_hook
            [of "evt_data e c" "fault_index e" "ProcessEntry_notify e c"] h sd
    by simp
  then show ?thesis
    using sd h by (simp add: ProcessEntry_def shutdown_requested_ProcessEntry_action)
qed


lemma ProcessFaults_loop_invariant:
  assumes "P c"
    and "\<And>e c. P c \<Longrightarrow> P (ProcessEntry cfg e c)"
    and "\<And>c qs. P c \<Longrightarrow> P (c\<lparr>queue_set := qs\<rparr>)"
  shows "P (snd (ProcessFaults_loop cfg c n))"
  using assms
proof (induction cfg c n rule: ProcessFaults_loop.induct)
  case (1 cfg c n)
  show ?case
  proof (cases "Pop (QueueLevels cfg) (queue_set c)")
    case None
    with "1.prems"(1) show ?thesis by (subst ProcessFaults_loop.simps) simp
  next
    case (Some r)
    obtain entry level qs where r: "r = (entry, level, qs)" by (cases r)
    have "P (ProcessEntry cfg entry (c\<lparr>queue_set := qs\<rparr>))"
      using "1.prems" by blast
    from "1.IH" [OF Some r [symmetric] refl this "1.prems"(2,3)] Some r show ?thesis
      by (subst ProcessFaults_loop.simps) simp
  qed
qed

lemma shutdown_requested_ProcessFaults_loop:
  "shutdown_requested c \<Longrightarrow> shutdown_requested (snd (ProcessFaults_loop cfg c n))"
  by (rule ProcessFaults_loop_invariant) (simp_all add: shutdown_requested_ProcessEntry)

lemma shutdown_requested_ReportFault [simp]:
  "shutdown_requested (snd (ReportFault cfg idx det pri c)) = shutdown_requested c"
proof -
  have d: "shutdown_requested (ReportFault_dropped idx pri level c1) = shutdown_requested c1"
    for level and c1 :: "'a FaultCollector"
    by (simp add: ReportFault_dropped_def Let_def split: option.splits)
  have a: "shutdown_requested (ReportFault_admitted idx pri level c1) = shutdown_requested c1"
    for level and c1 :: "'a FaultCollector"
    by (simp add: ReportFault_admitted_def Let_def SetFaultActive_def)
  show ?thesis
    by (simp add: ReportFault_def Let_def d a split: prod.splits)
qed

lemma shutdown_requested_apply_op:
  "shutdown_requested c \<Longrightarrow> shutdown_requested (apply_op cfg op c)"
  by (cases op)
     (simp_all add: RegisterFault_def RegisterHook_def SetDefaultHook_def
      SetOverflowCallback_def SetShutdownCallback_def SetBusNotifier_def BindFaultHsm_def
      ProcessFaults_def ClearFault_def ClearAllFaults_def ResetStatistics_def Let_def
      ClearFaultActive_def)

lemma shutdown_requested_run:
  "shutdown_requested c \<Longrightarrow> shutdown_requested (run cfg ops c)"
  unfolding run_def
  by (induction ops arbitrary: c) (simp_all add: shutdown_requested_apply_op)

section \<open>The admission policy of the queue set\<close>

lemma unat_of_nat_len: "n \<le> unat (w :: u32) \<Longrightarrow> unat (of_nat n :: u32) = n"
  by (metis le_unat_uoi)

lemma PushWithAdmission_invalid_level:
  "Levels \<le> level \<Longrightarrow> PushWithAdmission Levels LevelSize level item queues = (False, queues)"
  by (simp add: PushWithAdmission_def)

lemma threshold_without_overflow:
  "unat LevelSize * pct < 2 ^ 32 \<Longrightarrow> pct < 2 ^ 32 \<Longrightarrow>
   unat ((LevelSize * of_nat pct) div 100 :: u32) = (unat LevelSize * pct) div 100"
  by (simp add: unat_div unat_word_ariths unat_of_nat)

text \<open>
  C4. For a level of the queue set whose ring holds no more than its capacity,
  \<^verbatim>\<open>PushWithAdmission(level, item)\<close> enqueues the item and returns \<^verbatim>\<open>true\<close> exactly when the
  ring is not full and the level is 0, or the level is 1 and the ring's fill is below
  \<^verbatim>\<open>(QueueDepth * 99) / 100\<close>, or the level is 2 and the fill is below
  \<^verbatim>\<open>(QueueDepth * 80) / 100\<close>, or the level is 3 or more and the fill is below
  \<^verbatim>\<open>(QueueDepth * 60) / 100\<close>, the thresholds being computed in \<^verbatim>\<open>uint32_t\<close> arithmetic. In
  every other case the result is \<^verbatim>\<open>false\<close> and the queue set is unchanged, whether the
  policy or the full ring refused the item.
\<close>

theorem PushWithAdmission_policy:
  assumes "level < Levels" and "length (queues level) \<le> unat LevelSize"
  shows "PushWithAdmission Levels LevelSize level item queues =
     (if (level = 0
          \<or> level = 1 \<and> length (queues level) < unat ((LevelSize * 99) div 100)
          \<or> level = 2 \<and> length (queues level) < unat ((LevelSize * 80) div 100)
          \<or> level \<ge> 3 \<and> length (queues level) < unat ((LevelSize * 60) div 100))
         \<and> length (queues level) < unat LevelSize
      then (True, queues(level := queues level @ [item]))
      else (False, queues))"
proof -
  have lt: "(of_nat n < t) = (n < unat t)" if "n \<le> unat LevelSize" for n and t :: u32
    using that by (simp add: word_less_nat_alt unat_of_nat_len)
  note defs = PushWithAdmission_def AdmitByPriority_def ring_Push_def ring_Size_def
    kHighThreshold_def kMediumThreshold_def kLowThreshold_def
  consider "level = 0" | "level = 1" | "level = 2" | "level \<ge> 3"
    by linarith
  then show ?thesis
  proof cases
    case 1
    with assms show ?thesis by (simp add: defs)
  next
    case 2
    with assms show ?thesis by (simp add: defs lt)
  next
    case 3
    with assms show ?thesis by (simp add: defs lt)
  next
    case 4
    with assms show ?thesis by (simp add: defs lt)
  qed
qed

theorem PushWithAdmission_policy_witness:
  "(3::nat) < 4 \<and> length (q_low_four 3) \<le> unat (8 :: u32) \<and>
   PushWithAdmission 4 8 3 9 q_low_four = (False, q_low_four) \<and>
   PushWithAdmission 4 8 0 9 q_low_four = (True, q_low_four(0 := [9]))"
  using PushWithAdmission_policy [of 3 4 q_low_four 8 9]
    PushWithAdmission_policy [of 0 4 q_low_four 8 9]
  by (simp add: q_low_four_def)

section \<open>The priority scan of Pop\<close>

text \<open>
  C5. \<^verbatim>\<open>Pop\<close> returns \<^verbatim>\<open>false\<close> exactly when every level is empty. Otherwise it returns the
  oldest entry of a non-empty level, reports that level, removes the entry from it, and
  every level of lower index (higher priority) is empty: no entry of level \<open>k\<close> is popped
  while a level \<open>j < k\<close> holds one.
\<close>

theorem Pop_lowest_nonempty:
  "(Pop Levels queues = None \<longleftrightarrow> (\<forall>j<Levels. queues j = [])) \<and>
   (\<forall>item lvl qs'. Pop Levels queues = Some (item, lvl, qs') \<longrightarrow>
      lvl < Levels \<and> queues lvl \<noteq> [] \<and> item = hd (queues lvl) \<and>
      (\<forall>j<lvl. queues j = []) \<and> qs' = queues(lvl := tl (queues lvl)))"
  unfolding Pop_def using Pop_from_None [of Levels 0 queues] Pop_from_Some [of Levels 0 queues]
  by auto

theorem Pop_lowest_nonempty_witness:
  "Pop 4 q_two_levels = Some (5, 1, q_two_levels(1 := [6])) \<and>
   q_two_levels 0 = [] \<and> q_two_levels 1 \<noteq> [] \<and> hd (q_two_levels 1) = 5 \<and>
   Pop 4 (\<lambda>_. [] :: nat list) = None"
proof -
  have "Pop 4 q_two_levels = Some (5, 1, q_two_levels(1 := [6]))"
    by (simp add: Pop_def Pop_from.simps q_two_levels_def ring_Pop_def)
  with Pop_lowest_nonempty [of 4 q_two_levels] Pop_lowest_nonempty [of 4 "\<lambda>_. [] :: nat list"]
  show ?thesis by (simp add: q_two_levels_def)
qed

section \<open>Registration\<close>

text \<open>
  C7, as the code has it. \<^verbatim>\<open>RegisterFault(index, code, attr, err_threshold)\<close> returns
  \<^verbatim>\<open>kInvalidIndex\<close> when \<^verbatim>\<open>index >= MaxFaults\<close> and \<^verbatim>\<open>kAlreadyRegistered\<close> when the descriptor is
  registered, leaving the collector unchanged; otherwise it returns \<^verbatim>\<open>kOk\<close>, stores code,
  attr and err_threshold as given (a threshold of 0 is stored as 0), sets
  \<^verbatim>\<open>registered\<close>, and changes nothing else of the table.
\<close>

theorem RegisterFault_cases:
  "(MaxFaults cfg \<le> idx \<longrightarrow> RegisterFault cfg idx code a thr c = (kInvalidIndex, c)) \<and>
   (idx < MaxFaults cfg \<and> registered (table c idx) \<longrightarrow>
      RegisterFault cfg idx code a thr c = (kAlreadyRegistered, c)) \<and>
   (idx < MaxFaults cfg \<and> \<not> registered (table c idx) \<longrightarrow>
      fst (RegisterFault cfg idx code a thr c) = kOk \<and>
      (let t = table (snd (RegisterFault cfg idx code a thr c)) idx in
         fault_code t = code \<and> attr t = a \<and> err_threshold t = thr \<and> registered t \<and>
         occurrence_count t = occurrence_count (table c idx) \<and>
         hook_fn t = hook_fn (table c idx)) \<and>
      (\<forall>j. j \<noteq> idx \<longrightarrow> table (snd (RegisterFault cfg idx code a thr c)) j = table c j))"
  by (simp add: RegisterFault_def Let_def)

theorem RegisterFault_cases_witness:
  "fst (RegisterFault TestConfig 1 0x1002 0 3 c_registered) = kOk \<and>
   err_threshold (table (snd (RegisterFault TestConfig 1 0x1002 0 3 c_registered)) 1) = 3 \<and>
   fault_code (table (snd (RegisterFault TestConfig 1 0x1002 0 3 c_registered)) 1) = 0x1002 \<and>
   registered (table (snd (RegisterFault TestConfig 1 0x1002 0 3 c_registered)) 1) \<and>
   RegisterFault TestConfig 0 0x1001 0 1 c_registered = (kAlreadyRegistered, c_registered) \<and>
   RegisterFault TestConfig 16 0x1001 0 1 c_registered = (kInvalidIndex, c_registered)"
proof -
  have h: "(1::nat) < MaxFaults TestConfig" "\<not> registered (table c_registered 1)"
    "(0::nat) < MaxFaults TestConfig" "registered (table c_registered 0)"
    "MaxFaults TestConfig \<le> 16"
    by (simp_all add: eval_defs)
  from RegisterFault_cases [of TestConfig 1 "0x1002" 0 3 c_registered]
    RegisterFault_cases [of TestConfig 0 "0x1001" 0 1 c_registered]
    RegisterFault_cases [of TestConfig 16 "0x1001" 0 1 c_registered] h
  show ?thesis by (simp add: Let_def)
qed

text \<open>
  The claim that an \<^verbatim>\<open>err_threshold\<close> argument of 0 is stored as 1 fails:
  \<^verbatim>\<open>RegisterFault(0, 0x1001, 0, 0)\<close> on a fresh collector succeeds and stores 0.
\<close>

theorem RegisterFault_no_clamp_counterexample:
  "fst (RegisterFault TestConfig 0 0x1001 0 0 (FaultCollector_init 0)) = kOk \<and>
   err_threshold (table (snd (RegisterFault TestConfig 0 0x1001 0 0 (FaultCollector_init 0))) 0) = 0 \<and>
   err_threshold (table (snd (RegisterFault TestConfig 0 0x1001 0 0 (FaultCollector_init 0))) 0) \<noteq> 1"
  by (simp add: eval_defs)

section \<open>A critical report degrades the global state machine\<close>

text \<open>
  C9. When the global state machine is Idle and \<^verbatim>\<open>ReportFault\<close> succeeds for a fault of
  priority Critical, the global state machine is Degraded when \<^verbatim>\<open>ReportFault\<close> returns:
  the report dispatched \<^verbatim>\<open>kFaultReported\<close> and then \<^verbatim>\<open>kCriticalDetected\<close>, and incremented
  \<^verbatim>\<open>critical_count\<close>.
\<close>

theorem ReportFault_critical_degrades:
  assumes "g_state (global_hsm c) = G_Idle"
    and "ReportFault cfg idx det kCritical c = (kOk, c')"
  shows "g_state (global_hsm c') = G_Degraded \<and>
         critical_count (g_ctx (global_hsm c')) = critical_count (g_ctx (global_hsm c)) + 1 \<and>
         global_hsm c' =
           (let h = GlobalHsm_Dispatch kCriticalDetected
                      (GlobalHsm_Dispatch kFaultReported (global_hsm c))
            in h\<lparr>g_ctx := (g_ctx h)\<lparr>critical_count := critical_count (g_ctx h) + 1\<rparr>\<rparr>)"
proof -
  obtain now w where clk: "SteadyNowUs cfg (world c) = (now, w)"
    by (cases "SteadyNowUs cfg (world c)")
  define level where "level = ReportFault_level cfg kCritical"
  define entry where "entry = \<lparr>fault_index = idx, priority = kCritical, reserved = 0,
                                detail = det, timestamp_us = now\<rparr>"
  obtain pushed qs where push:
    "PushWithAdmission (QueueLevels cfg) (QueueDepth cfg) level entry (queue_set c) = (pushed, qs)"
    by (cases "PushWithAdmission (QueueLevels cfg) (QueueDepth cfg) level entry (queue_set c)")
  define c1 where "c1 = c\<lparr>queue_set := qs, world := w\<rparr>"
  have c1: "global_hsm c1 = global_hsm c"
    by (simp add: c1_def)
  have c': "c' = ReportFault_admitted idx kCritical level c1"
    using assms(2) clk push
    by (simp add: ReportFault_def Let_def level_def entry_def c1_def split: if_splits)
  have "global_hsm c' = (let h = GlobalHsm_Dispatch kCriticalDetected
                      (GlobalHsm_Dispatch kFaultReported (global_hsm c))
            in h\<lparr>g_ctx := (g_ctx h)\<lparr>critical_count := critical_count (g_ctx h) + 1\<rparr>\<rparr>)"
    using assms(1) c1
    by (simp add: c' ReportFault_admitted_def Let_def SetFaultActive_def IsIdle_def
        IsDegraded_def GlobalHsm_Dispatch_def evt_defs)
  then show ?thesis
    using assms(1) by (simp add: Let_def GlobalHsm_Dispatch_def evt_defs)
qed

theorem ReportFault_critical_degrades_witness:
  "g_state (global_hsm c_registered) = G_Idle \<and>
   fst (ReportFault TestConfig 0 0 kCritical c_registered) = kOk \<and>
   g_state (global_hsm (snd (ReportFault TestConfig 0 0 kCritical c_registered))) = G_Degraded \<and>
   critical_count (g_ctx (global_hsm (snd (ReportFault TestConfig 0 0 kCritical c_registered)))) = 1"
proof -
  have idle: "g_state (global_hsm c_registered) = G_Idle"
    by (simp add: eval_defs)
  have ok: "fst (ReportFault TestConfig 0 0 kCritical c_registered) = kOk"
    by (simp add: eval_defs)
  then have rep: "ReportFault TestConfig 0 0 kCritical c_registered
                  = (kOk, snd (ReportFault TestConfig 0 0 kCritical c_registered))"
    by (metis prod.collapse)
  have cnt: "critical_count (g_ctx (global_hsm c_registered)) = 0"
    by (simp add: eval_defs)
  note T = ReportFault_critical_degrades [OF idle rep]
  have a: "g_state (global_hsm (snd (ReportFault TestConfig 0 0 kCritical c_registered)))
             = G_Degraded"
    using T by blast
  have b: "critical_count (g_ctx (global_hsm (snd (ReportFault TestConfig 0 0 kCritical
             c_registered)))) = critical_count (g_ctx (global_hsm c_registered)) + 1"
    using T by blast
  show ?thesis
    using idle ok a b cnt by simp
qed

section \<open>The shutdown request is permanent\<close>

text \<open>
  C10. Once \<^verbatim>\<open>shutdown_requested_\<close> is set, it stays set through every sequence of public
  operations of the collector: \<^verbatim>\<open>IsShutdownRequested()\<close> returns \<^verbatim>\<open>true\<close> from then on.
\<close>

theorem shutdown_requested_permanent:
  "IsShutdownRequested c \<Longrightarrow> IsShutdownRequested (run cfg ops c)"
  unfolding IsShutdownRequested_def by (rule shutdown_requested_run)

theorem shutdown_requested_permanent_witness:
  "IsShutdownRequested c_shutdown \<and>
   IsShutdownRequested
     (run TestConfig [OpClearFault 0, OpClearAllFaults, OpResetStatistics, OpProcessFaults,
        OpReportFault 0 7 kCritical] c_shutdown)"
proof -
  have h: "IsShutdownRequested c_shutdown"
    by (simp add: eval_defs)
  from shutdown_requested_permanent [OF h] h show ?thesis by simp
qed

section \<open>Binding per-fault state machines\<close>

text \<open>The slot that receives the events of a fault index.\<close>

lemma DispatchPerFaultEvent_from_find:
  "DispatchPerFaultEvent_from i idx ev c =
     (case find (\<lambda>s. per_fault_hsm_map c s = idx) [i..<per_fault_hsm_count c] of
        None \<Rightarrow> c
      | Some s \<Rightarrow> c\<lparr>per_fault_hsms := (per_fault_hsms c)
                       (s := PerFaultHsm_Dispatch ev (per_fault_hsms c s))\<rparr>)"
proof (induction i idx ev c rule: DispatchPerFaultEvent_from.induct)
  case (1 i idx ev c)
  show ?case
  proof (cases "i < per_fault_hsm_count c")
    case False
    then show ?thesis
      by (subst DispatchPerFaultEvent_from.simps) simp
  next
    case True
    then have upt: "[i..<per_fault_hsm_count c] = i # [Suc i..<per_fault_hsm_count c]"
      by (rule upt_conv_Cons)
    show ?thesis
    proof (cases "per_fault_hsm_map c i = idx")
      case hit: True
      with True show ?thesis
        by (subst DispatchPerFaultEvent_from.simps) (simp add: upt)
    next
      case miss: False
      with True "1.IH" show ?thesis
        by (subst DispatchPerFaultEvent_from.simps) (simp add: upt)
    qed
  qed
qed

lemma DispatchPerFaultEvent_bound_slot:
  "DispatchPerFaultEvent idx ev c =
     (case bound_slot c idx of
        None \<Rightarrow> c
      | Some s \<Rightarrow> c\<lparr>per_fault_hsms := (per_fault_hsms c)
                       (s := PerFaultHsm_Dispatch ev (per_fault_hsms c s))\<rparr>)"
  by (simp add: DispatchPerFaultEvent_def bound_slot_def DispatchPerFaultEvent_from_find)

lemma bound_slot_Some:
  "bound_slot c idx = Some s \<Longrightarrow>
     s < per_fault_hsm_count c \<and> per_fault_hsm_map c s = idx \<and>
     (\<forall>k. k < s \<longrightarrow> per_fault_hsm_map c k \<noteq> idx)"
  by (auto simp: bound_slot_def find_Some_iff)

text \<open>Only \<^verbatim>\<open>BindFaultHsm\<close> changes the number of occupied slots.\<close>

lemma per_fault_hsm_count_ProcessEntry [simp]:
  "per_fault_hsm_count (ProcessEntry cfg e c) = per_fault_hsm_count c"
proof -
  have n: "per_fault_hsm_count (ProcessEntry_notify e c) = per_fault_hsm_count c"
    by (simp add: ProcessEntry_notify_def Let_def AddToRecentRing_def split: option.splits)
  have h: "per_fault_hsm_count (snd (ProcessEntry_hook ev idx c')) = per_fault_hsm_count c'"
    for ev idx and c' :: "'a FaultCollector"
    by (simp add: ProcessEntry_hook_def split: option.splits prod.splits)
  have e: "per_fault_hsm_count (HandleEscalation cfg e c') = per_fault_hsm_count c'"
    for c' :: "'a FaultCollector"
    by (simp add: HandleEscalation_def Let_def split: prod.splits)
  have a: "per_fault_hsm_count (ProcessEntry_action cfg a e c') = per_fault_hsm_count c'"
    for a and c' :: "'a FaultCollector"
    by (cases a)
       (simp_all add: ProcessEntry_action_def Let_def ClearFaultActive_def e split: option.splits)
  show ?thesis
    by (simp add: ProcessEntry_def case_prod_beta a h n)
qed

lemma per_fault_hsm_count_ProcessFaults_loop [simp]:
  "per_fault_hsm_count (snd (ProcessFaults_loop cfg c n)) = per_fault_hsm_count c"
  by (rule ProcessFaults_loop_invariant [where P = "\<lambda>x. per_fault_hsm_count x = per_fault_hsm_count c"])
     simp_all

lemma per_fault_hsm_count_ReportFault [simp]:
  "per_fault_hsm_count (snd (ReportFault cfg idx det pri c)) = per_fault_hsm_count c"
proof -
  have d: "per_fault_hsm_count (ReportFault_dropped idx pri level c1) = per_fault_hsm_count c1"
    for level and c1 :: "'a FaultCollector"
    by (simp add: ReportFault_dropped_def Let_def split: option.splits)
  have a: "per_fault_hsm_count (ReportFault_admitted idx pri level c1) = per_fault_hsm_count c1"
    for level and c1 :: "'a FaultCollector"
    by (simp add: ReportFault_admitted_def Let_def SetFaultActive_def)
  show ?thesis
    by (simp add: ReportFault_def Let_def d a split: prod.splits)
qed

lemma per_fault_hsm_count_apply_op:
  "per_fault_hsm_count c \<le> MaxPerFaultHsm cfg \<Longrightarrow>
   per_fault_hsm_count (apply_op cfg op c) \<le> MaxPerFaultHsm cfg"
  by (cases op)
     (simp_all add: RegisterFault_def RegisterHook_def SetDefaultHook_def
      SetOverflowCallback_def SetShutdownCallback_def SetBusNotifier_def BindFaultHsm_def
      ProcessFaults_def ClearFault_def ClearAllFaults_def ResetStatistics_def Let_def
      ClearFaultActive_def)

lemma per_fault_hsm_count_run:
  "per_fault_hsm_count c \<le> MaxPerFaultHsm cfg \<Longrightarrow>
   per_fault_hsm_count (run cfg ops c) \<le> MaxPerFaultHsm cfg"
  unfolding run_def
  by (induction ops arbitrary: c) (simp_all add: per_fault_hsm_count_apply_op)

text \<open>
  C8, as the code has it. \<^verbatim>\<open>BindFaultHsm\<close> does not look for an earlier binding of the
  index: with a valid index and fewer than \<^verbatim>\<open>MaxPerFaultHsm\<close> occupied slots it returns
  \<^verbatim>\<open>kOk\<close> and occupies the next slot, whatever the other slots carry. With a valid index
  it returns \<^verbatim>\<open>kHsmSlotFull\<close> once \<^verbatim>\<open>MaxPerFaultHsm\<close> slots are occupied, and
  \<^verbatim>\<open>kInvalidIndex\<close> for an index that is out of range; the number of occupied slots never
  exceeds \<^verbatim>\<open>MaxPerFaultHsm\<close> in a run from a fresh collector. The events of a fault index
  go to one state machine only, the one in the first slot that carries the index.
\<close>

theorem BindFaultHsm_slots:
  "(idx < MaxFaults cfg \<and> per_fault_hsm_count c < MaxPerFaultHsm cfg \<longrightarrow>
      fst (BindFaultHsm cfg idx thr c) = kOk \<and>
      (let c' = snd (BindFaultHsm cfg idx thr c) in
         per_fault_hsm_count c' = per_fault_hsm_count c + 1 \<and>
         per_fault_hsm_map c' (per_fault_hsm_count c) = idx \<and>
         per_fault_hsms c' (per_fault_hsm_count c)
           = PerFaultHsm_Bind idx thr (per_fault_hsms c (per_fault_hsm_count c)) \<and>
         (\<forall>s<per_fault_hsm_count c.
            per_fault_hsm_map c' s = per_fault_hsm_map c s \<and>
            per_fault_hsms c' s = per_fault_hsms c s))) \<and>
   (idx < MaxFaults cfg \<and> MaxPerFaultHsm cfg \<le> per_fault_hsm_count c \<longrightarrow>
      BindFaultHsm cfg idx thr c = (kHsmSlotFull, c)) \<and>
   (MaxFaults cfg \<le> idx \<longrightarrow> BindFaultHsm cfg idx thr c = (kInvalidIndex, c)) \<and>
   per_fault_hsm_count (run cfg ops (FaultCollector_init w)) \<le> MaxPerFaultHsm cfg \<and>
   DispatchPerFaultEvent idx ev c =
     (case bound_slot c idx of
        None \<Rightarrow> c
      | Some s \<Rightarrow> c\<lparr>per_fault_hsms := (per_fault_hsms c)
                       (s := PerFaultHsm_Dispatch ev (per_fault_hsms c s))\<rparr>)"
proof -
  have "per_fault_hsm_count (run cfg ops (FaultCollector_init w)) \<le> MaxPerFaultHsm cfg"
    by (rule per_fault_hsm_count_run) (simp add: FaultCollector_init_def)
  moreover note DispatchPerFaultEvent_bound_slot [of idx ev c]
  ultimately show ?thesis
    by (simp add: BindFaultHsm_def Let_def)
qed

theorem BindFaultHsm_slots_witness:
  "fst (BindFaultHsm TestConfig 0 1 c_bound) = kOk \<and>
   per_fault_hsm_count (snd (BindFaultHsm TestConfig 0 1 c_bound)) = 2 \<and>
   per_fault_hsm_map (snd (BindFaultHsm TestConfig 0 1 c_bound)) 1 = 0 \<and>
   per_fault_hsm_map (snd (BindFaultHsm TestConfig 0 1 c_bound)) 0 = 0 \<and>
   BindFaultHsm TestConfig 16 1 c_bound = (kInvalidIndex, c_bound) \<and>
   BindFaultHsm (TestConfig\<lparr>MaxPerFaultHsm := 1\<rparr>) 3 1 c_bound = (kHsmSlotFull, c_bound) \<and>
   bound_slot c_bound_twice 0 = Some 0 \<and>
   p_state (per_fault_hsms (DispatchPerFaultEvent 0 kDetected c_bound_twice) 0) = P_Detected \<and>
   p_state (per_fault_hsms (DispatchPerFaultEvent 0 kDetected c_bound_twice) 1) = P_Dormant"
proof -
  have h: "(0::nat) < MaxFaults TestConfig" "per_fault_hsm_count c_bound = 1"
    "per_fault_hsm_count c_bound < MaxPerFaultHsm TestConfig"
    "MaxFaults TestConfig \<le> 16" "(0::nat) < per_fault_hsm_count c_bound"
    "per_fault_hsm_map c_bound 0 = 0"
    "(3::nat) < MaxFaults (TestConfig\<lparr>MaxPerFaultHsm := 1\<rparr>)"
    "MaxPerFaultHsm (TestConfig\<lparr>MaxPerFaultHsm := 1\<rparr>) \<le> per_fault_hsm_count c_bound"
    by (simp_all add: eval_defs)
  have b: "bound_slot c_bound_twice 0 = Some 0"
    "p_state (per_fault_hsms c_bound_twice 0) = P_Dormant"
    "p_state (per_fault_hsms c_bound_twice 1) = P_Dormant"
    by (simp_all add: eval_defs)
  note T1 = BindFaultHsm_slots [of 0 TestConfig c_bound 1 "[]" 0 kDetected]
  note T2 = BindFaultHsm_slots [of 16 TestConfig c_bound 1 "[]" 0 kDetected]
  note T3 = BindFaultHsm_slots [of 3 "TestConfig\<lparr>MaxPerFaultHsm := 1\<rparr>" c_bound 1 "[]" 0 kDetected]
  note T4 = BindFaultHsm_slots [of 0 TestConfig c_bound_twice 1 "[]" 0 kDetected]
  have d: "DispatchPerFaultEvent 0 kDetected c_bound_twice =
     c_bound_twice\<lparr>per_fault_hsms := (per_fault_hsms c_bound_twice)
        (0 := PerFaultHsm_Dispatch kDetected (per_fault_hsms c_bound_twice 0))\<rparr>"
    using T4 b(1) by simp
  have p: "p_state (per_fault_hsms (DispatchPerFaultEvent 0 kDetected c_bound_twice) 0) = P_Detected"
    "p_state (per_fault_hsms (DispatchPerFaultEvent 0 kDetected c_bound_twice) 1) = P_Dormant"
    using b(2,3) by (simp_all add: d PerFaultHsm_Dispatch_def)
  from T1 h have "fst (BindFaultHsm TestConfig 0 1 c_bound) = kOk"
    "per_fault_hsm_count (snd (BindFaultHsm TestConfig 0 1 c_bound)) = 2"
    "per_fault_hsm_map (snd (BindFaultHsm TestConfig 0 1 c_bound)) 1 = 0"
    "per_fault_hsm_map (snd (BindFaultHsm TestConfig 0 1 c_bound)) 0 = 0"
    by (simp_all add: Let_def)
  moreover from T2 h have "BindFaultHsm TestConfig 16 1 c_bound = (kInvalidIndex, c_bound)"
    by simp
  moreover from T3 h
  have "BindFaultHsm (TestConfig\<lparr>MaxPerFaultHsm := 1\<rparr>) 3 1 c_bound = (kHsmSlotFull, c_bound)"
    by simp
  ultimately show ?thesis using b p by simp
qed

text \<open>
  The claim that no two occupied slots carry the same fault index fails: binding the
  index 0 twice succeeds twice and leaves the slots 0 and 1 both mapped to 0.
\<close>

theorem BindFaultHsm_duplicate_counterexample:
  "fst (BindFaultHsm TestConfig 0 1 (FaultCollector_init 0)) = kOk \<and>
   fst (BindFaultHsm TestConfig 0 1 (snd (BindFaultHsm TestConfig 0 1 (FaultCollector_init 0)))) = kOk \<and>
   per_fault_hsm_count c_bound_twice = 2 \<and>
   per_fault_hsm_map c_bound_twice 0 = 0 \<and> per_fault_hsm_map c_bound_twice 1 = 0"
  by (simp add: eval_defs)

section \<open>A hook that returns Shutdown\<close>

lemma ProcessFaults_after_shutdown:
  "shutdown_requested c \<Longrightarrow> ProcessFaults cfg (run cfg ops c) = (0, run cfg ops c)"
  using shutdown_requested_run [of c cfg ops] by (simp add: ProcessFaults_def)

text \<open>
  C2. When the hook invoked for a processed entry returns \<^verbatim>\<open>kShutdown\<close>, \<^verbatim>\<open>ProcessEntry\<close> sets
  \<^verbatim>\<open>shutdown_requested_\<close>, dispatches \<^verbatim>\<open>kShutdownReq\<close> to the global state machine and calls
  \<^verbatim>\<open>shutdown_fn\<close> if it is set. After the running \<^verbatim>\<open>ProcessFaults\<close> has finished its loop,
  and after any further operations, every call of \<^verbatim>\<open>ProcessFaults\<close> returns 0 and leaves
  the collector, its queue set included, as it is.
\<close>

theorem shutdown_hook_effects:
  assumes "fault_index entry < MaxFaults cfg"
    and "ProcessEntry_hook (evt_data entry c) (fault_index entry) (ProcessEntry_notify entry c)
           = (kShutdown, c1)"
  shows "shutdown_requested (ProcessEntry cfg entry c) \<and>
         global_hsm (ProcessEntry cfg entry c) = GlobalHsm_Dispatch kShutdownReq (global_hsm c1) \<and>
         world (ProcessEntry cfg entry c)
           = (case shutdown_fn c1 of None \<Rightarrow> world c1 | Some f \<Rightarrow> f (world c1)) \<and>
         (\<forall>n ops.
            ProcessFaults cfg
              (run cfg ops (snd (ProcessFaults_loop cfg (ProcessEntry cfg entry c) n)))
            = (0, run cfg ops (snd (ProcessFaults_loop cfg (ProcessEntry cfg entry c) n))))"
proof -
  have pe: "ProcessEntry cfg entry c = ProcessEntry_action cfg kShutdown entry c1"
    using assms by (simp add: ProcessEntry_def)
  have sd: "shutdown_requested (ProcessEntry cfg entry c)"
    by (simp add: pe ProcessEntry_action_def Let_def split: option.splits)
  have "shutdown_requested (snd (ProcessFaults_loop cfg (ProcessEntry cfg entry c) n))" for n
    using sd by (rule shutdown_requested_ProcessFaults_loop)
  then have later: "ProcessFaults cfg
              (run cfg ops (snd (ProcessFaults_loop cfg (ProcessEntry cfg entry c) n)))
            = (0, run cfg ops (snd (ProcessFaults_loop cfg (ProcessEntry cfg entry c) n)))"
    for n ops
    by (rule ProcessFaults_after_shutdown)
  have "global_hsm (ProcessEntry cfg entry c) = GlobalHsm_Dispatch kShutdownReq (global_hsm c1)"
    by (simp add: pe ProcessEntry_action_def Let_def split: option.splits)
  moreover have "world (ProcessEntry cfg entry c)
           = (case shutdown_fn c1 of None \<Rightarrow> world c1 | Some f \<Rightarrow> f (world c1))"
    by (simp add: pe ProcessEntry_action_def Let_def split: option.splits)
  ultimately show ?thesis using sd later by blast
qed

text \<open>The entry and the collector of the example: what \<open>Pop\<close> yields for the pending report.\<close>

lemma Pop_c_shutdown_pending:
  "Pop (QueueLevels TestConfig) (queue_set c_shutdown_pending)
     = Some (entry_reported, 2, queue_set c_shutdown_popped)"
  by (simp add: eval_defs fun_eq_iff)

theorem shutdown_hook_effects_witness:
  "fault_index entry_reported < MaxFaults TestConfig \<and>
   fst (ProcessEntry_hook (evt_data entry_reported c_shutdown_popped)
          (fault_index entry_reported) (ProcessEntry_notify entry_reported c_shutdown_popped))
     = kShutdown \<and>
   shutdown_requested (ProcessEntry TestConfig entry_reported c_shutdown_popped) \<and>
   g_state (global_hsm (ProcessEntry TestConfig entry_reported c_shutdown_popped)) = G_Shutdown \<and>
   world (ProcessEntry TestConfig entry_reported c_shutdown_popped) = 101 \<and>
   ProcessFaults TestConfig
     (run TestConfig [OpReportFault 0 1 kHigh]
        (snd (ProcessFaults_loop TestConfig
                (ProcessEntry TestConfig entry_reported c_shutdown_popped) 1)))
   = (0, run TestConfig [OpReportFault 0 1 kHigh]
        (snd (ProcessFaults_loop TestConfig
                (ProcessEntry TestConfig entry_reported c_shutdown_popped) 1)))"
proof -
  define c1 where "c1 = snd (ProcessEntry_hook (evt_data entry_reported c_shutdown_popped)
          (fault_index entry_reported) (ProcessEntry_notify entry_reported c_shutdown_popped))"
  have idx: "fault_index entry_reported < MaxFaults TestConfig"
    by (simp add: eval_defs)
  have act: "fst (ProcessEntry_hook (evt_data entry_reported c_shutdown_popped)
          (fault_index entry_reported) (ProcessEntry_notify entry_reported c_shutdown_popped))
     = kShutdown"
    by (simp add: eval_defs)
  then have hook: "ProcessEntry_hook (evt_data entry_reported c_shutdown_popped)
          (fault_index entry_reported) (ProcessEntry_notify entry_reported c_shutdown_popped)
     = (kShutdown, c1)"
    unfolding c1_def by (metis prod.collapse)
  have c1: "g_state (global_hsm c1) = G_Active" "shutdown_fn c1 = Some (\<lambda>w. w + 100)"
    "world c1 = 1"
    by (simp_all add: c1_def eval_defs)
  note T = shutdown_hook_effects [OF idx hook]
  have a: "shutdown_requested (ProcessEntry TestConfig entry_reported c_shutdown_popped)"
    using T by blast
  have b: "g_state (global_hsm (ProcessEntry TestConfig entry_reported c_shutdown_popped))
             = G_Shutdown"
    using T c1(1) by (simp add: GlobalHsm_Dispatch_def evt_defs)
  have c: "world (ProcessEntry TestConfig entry_reported c_shutdown_popped) = 101"
    using T c1(2,3) by simp
  have d: "ProcessFaults TestConfig
     (run TestConfig [OpReportFault 0 1 kHigh]
        (snd (ProcessFaults_loop TestConfig
                (ProcessEntry TestConfig entry_reported c_shutdown_popped) 1)))
   = (0, run TestConfig [OpReportFault 0 1 kHigh]
        (snd (ProcessFaults_loop TestConfig
                (ProcessEntry TestConfig entry_reported c_shutdown_popped) 1)))"
    using T by blast
  show ?thesis using idx act a b c d by blast
qed

section \<open>From a report to the event that processing passes on\<close>

text \<open>Processing changes only the occurrence counter of a descriptor.\<close>

lemma table_ProcessEntry:
  "table (ProcessEntry cfg e c) = table c \<or>
   table (ProcessEntry cfg e c) = (table c)(fault_index e := (table c (fault_index e))
       \<lparr>occurrence_count := occurrence_count (table c (fault_index e)) + 1\<rparr>)"
proof -
  have n: "table (ProcessEntry_notify e c) = (table c)(fault_index e := (table c (fault_index e))
       \<lparr>occurrence_count := occurrence_count (table c (fault_index e)) + 1\<rparr>)"
    by (simp add: ProcessEntry_notify_def Let_def AddToRecentRing_def split: option.splits)
  have h: "table (snd (ProcessEntry_hook ev idx c')) = table c'"
    for ev idx and c' :: "'a FaultCollector"
    by (simp add: ProcessEntry_hook_def split: option.splits prod.splits)
  have e: "table (HandleEscalation cfg e c') = table c'"
    for c' :: "'a FaultCollector"
    by (simp add: HandleEscalation_def Let_def split: prod.splits)
  have a: "table (ProcessEntry_action cfg a e c') = table c'"
    for a and c' :: "'a FaultCollector"
    by (cases a)
       (simp_all add: ProcessEntry_action_def Let_def ClearFaultActive_def e split: option.splits)
  show ?thesis
    by (simp add: ProcessEntry_def case_prod_beta a h n)
qed

lemma descriptor_is_ProcessEntry:
  "descriptor_is c i code \<Longrightarrow> descriptor_is (ProcessEntry cfg e c) i code"
  using table_ProcessEntry [of cfg e c] by (auto simp: descriptor_is_def)

lemma descriptor_is_ProcessFaults_loop:
  "descriptor_is c i code \<Longrightarrow> descriptor_is (snd (ProcessFaults_loop cfg c n)) i code"
  by (rule ProcessFaults_loop_invariant)
     (simp_all add: descriptor_is_ProcessEntry, simp add: descriptor_is_def)

lemma table_ReportFault [simp]:
  "table (snd (ReportFault cfg idx det pri c)) = table c"
proof -
  have d: "table (ReportFault_dropped idx pri level c1) = table c1"
    for level and c1 :: "'a FaultCollector"
    by (simp add: ReportFault_dropped_def Let_def split: option.splits)
  have a: "table (ReportFault_admitted idx pri level c1) = table c1"
    for level and c1 :: "'a FaultCollector"
    by (simp add: ReportFault_admitted_def Let_def SetFaultActive_def)
  show ?thesis
    by (simp add: ReportFault_def Let_def d a split: prod.splits)
qed

lemma fold_clear_occurrence:
  "registered (fold (\<lambda>i t. t(i := (t i)\<lparr>occurrence_count := 0\<rparr>)) xs t j) = registered (t j) \<and>
   fault_code (fold (\<lambda>i t. t(i := (t i)\<lparr>occurrence_count := 0\<rparr>)) xs t j) = fault_code (t j)"
  by (induction xs arbitrary: t) simp_all

lemma descriptor_is_apply_op:
  "descriptor_is c i code \<Longrightarrow> descriptor_is (apply_op cfg op c) i code"
proof (cases op)
  case OpProcessFaults
  assume "descriptor_is c i code"
  then show ?thesis
    unfolding OpProcessFaults
    by (simp add: ProcessFaults_def descriptor_is_ProcessFaults_loop)
next
  case (OpReportFault idx det pri)
  assume "descriptor_is c i code"
  then show ?thesis
    unfolding OpReportFault by (simp add: descriptor_is_def)
qed (auto simp: descriptor_is_def RegisterFault_def RegisterHook_def SetDefaultHook_def
      SetOverflowCallback_def SetShutdownCallback_def SetBusNotifier_def BindFaultHsm_def
      ClearFault_def ClearAllFaults_def ResetStatistics_def Let_def
      ClearFaultActive_def fold_clear_occurrence)

lemma descriptor_is_run:
  "descriptor_is c i code \<Longrightarrow> descriptor_is (run cfg ops c) i code"
  unfolding run_def
  by (induction ops arbitrary: c) (simp_all add: descriptor_is_apply_op)

lemma PushWithAdmission_True:
  "PushWithAdmission Levels LevelSize level item queues = (True, qs) \<Longrightarrow>
   qs = queues(level := queues level @ [item])"
  by (auto simp: PushWithAdmission_def ring_Push_def split: if_splits)

lemma queue_set_ReportFault_admitted [simp]:
  "queue_set (ReportFault_admitted idx pri level c1) = queue_set c1"
  by (simp add: ReportFault_admitted_def Let_def SetFaultActive_def)

text \<open>What \<^verbatim>\<open>ProcessEntry\<close> hands to the bus notifier and to the hook.\<close>

lemma ProcessFaults_loop_iteration:
  "ProcessFaults_loop cfg c n =
     (case Pop (QueueLevels cfg) (queue_set c) of
        None \<Rightarrow> (n, c)
      | Some r \<Rightarrow> ProcessFaults_loop cfg (ProcessFaults_iteration cfg c) (n + 1))"
  by (subst ProcessFaults_loop.simps)
     (simp add: ProcessFaults_iteration_def split: option.splits prod.splits)

lemma progress_run: "progress cfg (map Operation ops) c = run cfg ops c"
  unfolding progress_def run_def
  by (induction ops arbitrary: c) simp_all

lemma descriptor_is_queue_set [simp]:
  "descriptor_is (c\<lparr>queue_set := qs\<rparr>) i code = descriptor_is c i code"
  by (simp add: descriptor_is_def)

lemma descriptor_is_apply_step:
  "descriptor_is c i code \<Longrightarrow> descriptor_is (apply_step cfg s c) i code"
  by (cases s)
     (simp_all add: descriptor_is_apply_op ProcessFaults_iteration_def descriptor_is_ProcessEntry
        split: option.splits)

lemma descriptor_is_progress:
  "descriptor_is c i code \<Longrightarrow> descriptor_is (progress cfg steps c) i code"
  unfolding progress_def
  by (induction steps arbitrary: c) (simp_all add: descriptor_is_apply_step)

lemma world_ProcessEntry_notify:
  "world (ProcessEntry_notify e c) =
     (case bus_notify_fn c of None \<Rightarrow> world c | Some f \<Rightarrow> f (evt_data e c) (world c))"
  by (simp add: ProcessEntry_notify_def Let_def AddToRecentRing_def split: option.splits)

lemma hooks_ProcessEntry_notify:
  "hook_fn (table (ProcessEntry_notify e c) idx) = hook_fn (table c idx)"
  "default_hook_fn (ProcessEntry_notify e c) = default_hook_fn c"
  by (simp_all add: ProcessEntry_notify_def Let_def AddToRecentRing_def split: option.splits)

lemma ProcessEntry_hook_cases:
  "fault_index e < MaxFaults cfg \<Longrightarrow>
   ProcessEntry cfg e c =
     (let c5 = ProcessEntry_notify e c in
      case hook_fn (table c (fault_index e)) of
        Some h \<Rightarrow> (case h (evt_data e c) (world c5) of
                     (action, w) \<Rightarrow> ProcessEntry_action cfg action e (c5\<lparr>world := w\<rparr>))
      | None \<Rightarrow>
          (case default_hook_fn c of
             Some h \<Rightarrow> (case h (evt_data e c) (world c5) of
                          (action, w) \<Rightarrow> ProcessEntry_action cfg action e (c5\<lparr>world := w\<rparr>))
           | None \<Rightarrow> ProcessEntry_action cfg kHandled e c5))"
  by (simp add: ProcessEntry_def ProcessEntry_hook_def hooks_ProcessEntry_notify Let_def
      split: option.splits prod.splits)

text \<open>
  C3. Let \<^verbatim>\<open>RegisterFault\<close> have registered the index \<open>i\<close> with a fault code, and let a later
  \<^verbatim>\<open>ReportFault(i, d, p)\<close> succeed. The report appends to the ring of its level an entry
  that carries \<open>i\<close>, \<open>d\<close> and \<open>p\<close>. Whenever afterwards, after any operations and any passes
  of the drain loop, \<open>Pop\<close> yields that entry, \<^verbatim>\<open>ProcessFaults\<close> continues with \<^verbatim>\<open>ProcessEntry\<close> on
  it, and \<^verbatim>\<open>ProcessEntry\<close> calls the bus notifier (if set) and the hook (the descriptor's,
  else the default one) with one and the same \<^verbatim>\<open>FaultEvent\<close>: its index is \<open>i\<close>, its detail
  \<open>d\<close>, its priority \<open>p\<close>, its fault code the one that \<^verbatim>\<open>RegisterFault\<close> stored, its
  timestamp the entry's, and its occurrence count the descriptor's counter plus one.
\<close>

theorem report_process_roundtrip:
  assumes reg: "RegisterFault cfg i code a thr c0 = (kOk, c1)"
    and rep: "ReportFault cfg i d p (run cfg ops1 c1) = (kOk, c2)"
  shows "\<exists>e. queue_set c2 (ReportFault_level cfg p)
               = queue_set (run cfg ops1 c1) (ReportFault_level cfg p) @ [e] \<and>
             fault_index e = i \<and> detail e = d \<and> priority e = p \<and>
             (\<forall>steps lvl qs n.
                Pop (QueueLevels cfg) (queue_set (progress cfg steps c2)) = Some (e, lvl, qs) \<longrightarrow>
                (let c3 = progress cfg steps c2;
                     c4 = c3\<lparr>queue_set := qs\<rparr>;
                     c5 = ProcessEntry_notify e c4;
                     ev = \<lparr>ev_fault_index = i, ev_priority = p, ev_fault_code = code,
                           ev_detail = d, ev_timestamp_us = timestamp_us e,
                           ev_occurrence_count = occurrence_count (table c4 i) + 1,
                           ev_is_first = (occurrence_count (table c4 i) = 0)\<rparr>
                 in ProcessFaults_loop cfg c3 n
                      = ProcessFaults_loop cfg (ProcessEntry cfg e c4) (n + 1) \<and>
                    (\<not> shutdown_requested c3 \<longrightarrow>
                       ProcessFaults cfg c3 = ProcessFaults_loop cfg (ProcessEntry cfg e c4) 1) \<and>
                    world c5 = (case bus_notify_fn c4 of
                                  None \<Rightarrow> world c4
                                | Some f \<Rightarrow> f ev (world c4)) \<and>
                    ProcessEntry cfg e c4 =
                      (case hook_fn (table c4 i) of
                         Some h \<Rightarrow>
                           (case h ev (world c5) of
                              (action, w) \<Rightarrow> ProcessEntry_action cfg action e (c5\<lparr>world := w\<rparr>))
                       | None \<Rightarrow>
                           (case default_hook_fn c4 of
                              Some h \<Rightarrow>
                                (case h ev (world c5) of
                                   (action, w) \<Rightarrow>
                                     ProcessEntry_action cfg action e (c5\<lparr>world := w\<rparr>))
                            | None \<Rightarrow> ProcessEntry_action cfg kHandled e c5))))"
proof -
  define c where "c = run cfg ops1 c1"
  from reg have valid: "i < MaxFaults cfg"
    by (auto simp: RegisterFault_def split: if_splits)
  from reg have "descriptor_is c1 i code"
    by (auto simp: RegisterFault_def descriptor_is_def split: if_splits)
  then have dc: "descriptor_is c i code"
    unfolding c_def by (rule descriptor_is_run)
  obtain now w where clk: "SteadyNowUs cfg (world c) = (now, w)"
    by (cases "SteadyNowUs cfg (world c)")
  define e where "e = \<lparr>fault_index = i, priority = p, reserved = 0, detail = d,
                        timestamp_us = now\<rparr>"
  obtain pushed qs0 where push:
    "PushWithAdmission (QueueLevels cfg) (QueueDepth cfg) (ReportFault_level cfg p) e (queue_set c)
       = (pushed, qs0)"
    by (cases "PushWithAdmission (QueueLevels cfg) (QueueDepth cfg) (ReportFault_level cfg p) e
                 (queue_set c)")
  from rep have c2: "pushed"
    "c2 = ReportFault_admitted i p (ReportFault_level cfg p) (c\<lparr>queue_set := qs0, world := w\<rparr>)"
    using clk push
    by (auto simp: ReportFault_def Let_def c_def [symmetric] e_def split: if_splits)
  from push c2(1) have qs0: "qs0 = (queue_set c)(ReportFault_level cfg p :=
                                 queue_set c (ReportFault_level cfg p) @ [e])"
    by (intro PushWithAdmission_True [of "QueueLevels cfg" "QueueDepth cfg"]) simp
  have q: "queue_set c2 (ReportFault_level cfg p)
             = queue_set c (ReportFault_level cfg p) @ [e]"
    by (simp add: c2(2) qs0)
  have "table c2 = table c"
    using rep table_ReportFault [of cfg i d p c] by (simp add: c_def)
  with dc have d2: "descriptor_is c2 i code"
    by (simp add: descriptor_is_def)
  have fields: "fault_index e = i" "detail e = d" "priority e = p"
    by (simp_all add: e_def)
  have drained: "(let c3 = progress cfg steps c2;
                     c4 = c3\<lparr>queue_set := qs\<rparr>;
                     c5 = ProcessEntry_notify e c4;
                     ev = \<lparr>ev_fault_index = i, ev_priority = p, ev_fault_code = code,
                           ev_detail = d, ev_timestamp_us = timestamp_us e,
                           ev_occurrence_count = occurrence_count (table c4 i) + 1,
                           ev_is_first = (occurrence_count (table c4 i) = 0)\<rparr>
                 in ProcessFaults_loop cfg c3 n
                      = ProcessFaults_loop cfg (ProcessEntry cfg e c4) (n + 1) \<and>
                    (\<not> shutdown_requested c3 \<longrightarrow>
                       ProcessFaults cfg c3 = ProcessFaults_loop cfg (ProcessEntry cfg e c4) 1) \<and>
                    world c5 = (case bus_notify_fn c4 of
                                  None \<Rightarrow> world c4
                                | Some f \<Rightarrow> f ev (world c4)) \<and>
                    ProcessEntry cfg e c4 =
                      (case hook_fn (table c4 i) of
                         Some h \<Rightarrow>
                           (case h ev (world c5) of
                              (action, w) \<Rightarrow> ProcessEntry_action cfg action e (c5\<lparr>world := w\<rparr>))
                       | None \<Rightarrow>
                           (case default_hook_fn c4 of
                              Some h \<Rightarrow>
                                (case h ev (world c5) of
                                   (action, w) \<Rightarrow>
                                     ProcessEntry_action cfg action e (c5\<lparr>world := w\<rparr>))
                            | None \<Rightarrow> ProcessEntry_action cfg kHandled e c5)))"
    if pop: "Pop (QueueLevels cfg) (queue_set (progress cfg steps c2)) = Some (e, lvl, qs)"
    for steps lvl qs n
  proof -
    define c3 where "c3 = progress cfg steps c2"
    define c4 where "c4 = c3\<lparr>queue_set := qs\<rparr>"
    have d4: "descriptor_is c4 i code"
      unfolding c4_def c3_def using d2 by (simp add: descriptor_is_progress)
    have ev: "evt_data e c4 = \<lparr>ev_fault_index = i, ev_priority = p, ev_fault_code = code,
                           ev_detail = d, ev_timestamp_us = timestamp_us e,
                           ev_occurrence_count = occurrence_count (table c4 i) + 1,
                           ev_is_first = (occurrence_count (table c4 i) = 0)\<rparr>"
      using d4 by (simp add: evt_data_def Let_def fields descriptor_is_def)
    have loop: "ProcessFaults_loop cfg c3 n
                  = ProcessFaults_loop cfg (ProcessEntry cfg e c4) (n + 1)" for n
      using pop by (subst ProcessFaults_loop.simps) (simp add: c3_def c4_def)
    have call: "\<not> shutdown_requested c3 \<longrightarrow>
                  ProcessFaults cfg c3 = ProcessFaults_loop cfg (ProcessEntry cfg e c4) 1"
      using loop [of 0] by (simp add: ProcessFaults_def)
    have bus: "world (ProcessEntry_notify e c4)
                 = (case bus_notify_fn c4 of
                      None \<Rightarrow> world c4
                    | Some f \<Rightarrow> f (evt_data e c4) (world c4))"
      by (rule world_ProcessEntry_notify)
    have hook: "ProcessEntry cfg e c4 =
     (let c5 = ProcessEntry_notify e c4 in
      case hook_fn (table c4 i) of
        Some h \<Rightarrow> (case h (evt_data e c4) (world c5) of
                     (action, w) \<Rightarrow> ProcessEntry_action cfg action e (c5\<lparr>world := w\<rparr>))
      | None \<Rightarrow>
          (case default_hook_fn c4 of
             Some h \<Rightarrow> (case h (evt_data e c4) (world c5) of
                          (action, w) \<Rightarrow> ProcessEntry_action cfg action e (c5\<lparr>world := w\<rparr>))
           | None \<Rightarrow> ProcessEntry_action cfg kHandled e c5))"
      using ProcessEntry_hook_cases [of e cfg c4] valid by (simp add: fields)
    show ?thesis
      unfolding Let_def c3_def [symmetric] c4_def [symmetric]
      using loop [of n] call bus hook unfolding ev Let_def by blast
  qed
  show ?thesis
    unfolding c_def [symmetric]
    using q fields drained by (intro exI [of _ e]) blast
qed

theorem report_process_roundtrip_witness:
  "RegisterFault LogConfig 0 0x1001 0 1 (FaultCollector_init []) = (kOk, c_log_registered) \<and>
   ReportFault LogConfig 0 0xAA kMedium (run LogConfig log_ops c_log_registered)
     = (kOk, c_log_reported) \<and>
   queue_set c_log_reported 2 = [e_log] \<and>
   Pop (QueueLevels LogConfig) (queue_set c_log_later) = Some (e_log, 2, queue_set c_log_popped) \<and>
   world (ProcessEntry_notify e_log c_log_popped) = [ev_log] \<and>
   ProcessEntry LogConfig e_log c_log_popped
     = ProcessEntry_action LogConfig kHandled e_log
         ((ProcessEntry_notify e_log c_log_popped)\<lparr>world := [ev_log, ev_log]\<rparr>) \<and>
   world (snd (ProcessFaults LogConfig c_log_reported)) = [ev_log, ev_log]"
proof -
  have reg: "RegisterFault LogConfig 0 0x1001 0 1 (FaultCollector_init []) = (kOk, c_log_registered)"
    by (simp add: c_log_registered_def RegisterFault_def LogConfig_def FaultCollector_init_def)
  have "fst (ReportFault LogConfig 0 0xAA kMedium (run LogConfig log_ops c_log_registered)) = kOk"
    by (simp add: eval_defs)
  then have rep: "ReportFault LogConfig 0 0xAA kMedium (run LogConfig log_ops c_log_registered)
     = (kOk, c_log_reported)"
    unfolding c_log_reported_def by (metis prod.collapse)
  have lvl: "ReportFault_level LogConfig kMedium = 2"
    by (simp add: ReportFault_level_def LogConfig_def)
  have queued: "queue_set c_log_reported 2 = [e_log]"
    "queue_set (run LogConfig log_ops c_log_registered) 2 = []"
    by (simp_all add: eval_defs)
  have pop: "Pop (QueueLevels LogConfig)
               (queue_set (progress LogConfig [Operation (OpReportFault 0 0xCC kLow)] c_log_reported))
             = Some (e_log, 2, queue_set c_log_popped)"
    by (simp add: eval_defs fun_eq_iff)
  have st: "bus_notify_fn c_log_popped = Some (\<lambda>ev w. w @ [ev])"
    "hook_fn (table c_log_popped 0) = Some (\<lambda>ev w. (kHandled, w @ [ev]))"
    "world c_log_popped = []" "occurrence_count (table c_log_popped 0) = 0"
    "timestamp_us e_log = 0"
    by (simp_all add: eval_defs)
  from report_process_roundtrip [OF reg rep]
  obtain e where E: "queue_set c_log_reported (ReportFault_level LogConfig kMedium)
               = queue_set (run LogConfig log_ops c_log_registered)
                   (ReportFault_level LogConfig kMedium) @ [e]"
    and D: "\<And>steps lvl qs n.
                Pop (QueueLevels LogConfig) (queue_set (progress LogConfig steps c_log_reported))
                  = Some (e, lvl, qs) \<Longrightarrow>
                (let c3 = progress LogConfig steps c_log_reported;
                     c4 = c3\<lparr>queue_set := qs\<rparr>;
                     c5 = ProcessEntry_notify e c4;
                     ev = \<lparr>ev_fault_index = 0, ev_priority = kMedium, ev_fault_code = 0x1001,
                           ev_detail = 0xAA, ev_timestamp_us = timestamp_us e,
                           ev_occurrence_count = occurrence_count (table c4 0) + 1,
                           ev_is_first = (occurrence_count (table c4 0) = 0)\<rparr>
                 in ProcessFaults_loop LogConfig c3 n
                      = ProcessFaults_loop LogConfig (ProcessEntry LogConfig e c4) (n + 1) \<and>
                    (\<not> shutdown_requested c3 \<longrightarrow>
                       ProcessFaults LogConfig c3
                         = ProcessFaults_loop LogConfig (ProcessEntry LogConfig e c4) 1) \<and>
                    world c5 = (case bus_notify_fn c4 of
                                  None \<Rightarrow> world c4
                                | Some f \<Rightarrow> f ev (world c4)) \<and>
                    ProcessEntry LogConfig e c4 =
                      (case hook_fn (table c4 0) of
                         Some h \<Rightarrow>
                           (case h ev (world c5) of
                              (action, w) \<Rightarrow>
                                ProcessEntry_action LogConfig action e (c5\<lparr>world := w\<rparr>))
                       | None \<Rightarrow>
                           (case default_hook_fn c4 of
                              Some h \<Rightarrow>
                                (case h ev (world c5) of
                                   (action, w) \<Rightarrow>
                                     ProcessEntry_action LogConfig action e (c5\<lparr>world := w\<rparr>))
                            | None \<Rightarrow> ProcessEntry_action LogConfig kHandled e c5)))"
    by blast
  from E queued have e: "e = e_log"
    by (simp add: lvl)
  have c4: "(progress LogConfig [Operation (OpReportFault 0 0xCC kLow)] c_log_reported)
              \<lparr>queue_set := queue_set c_log_popped\<rparr> = c_log_popped"
    by (simp add: c_log_popped_def c_log_later_def)
  note R = D [of "[Operation (OpReportFault 0 0xCC kLow)]" 2 "queue_set c_log_popped" 0,
              unfolded e, OF pop, unfolded Let_def c4 st]
  have bus: "world (ProcessEntry_notify e_log c_log_popped) = [ev_log]"
    using R by (simp add: ev_log_def)
  have hook: "ProcessEntry LogConfig e_log c_log_popped
     = ProcessEntry_action LogConfig kHandled e_log
         ((ProcessEntry_notify e_log c_log_popped)\<lparr>world := [ev_log, ev_log]\<rparr>)"
    using R bus by (simp add: ev_log_def)
  have w: "world (snd (ProcessFaults LogConfig c_log_reported)) = [ev_log, ev_log]"
    by (simp add: eval_defs)
  have pop': "Pop (QueueLevels LogConfig) (queue_set c_log_later)
                = Some (e_log, 2, queue_set c_log_popped)"
    using pop by (simp add: c_log_later_def)
  show ?thesis
    using reg rep queued(1) pop' bus hook w by blast
qed

section \<open>Clearing a fault twice\<close>

lemma bound_slot_cong:
  "per_fault_hsm_map c' = per_fault_hsm_map c \<Longrightarrow>
   per_fault_hsm_count c' = per_fault_hsm_count c \<Longrightarrow> bound_slot c' idx = bound_slot c idx"
  by (simp add: bound_slot_def)

lemma GlobalHsm_Dispatch_AllCleared_twice:
  "GlobalHsm_Dispatch kAllCleared (GlobalHsm_Dispatch kAllCleared h)
     = GlobalHsm_Dispatch kAllCleared h"
  by (cases "g_state h") (simp_all add: GlobalHsm_Dispatch_def evt_defs)

lemma PerFaultHsm_Dispatch_kClearFault_idem:
  "p_state h \<noteq> P_Detected \<Longrightarrow> p_state h \<noteq> P_Active \<Longrightarrow>
   PerFaultHsm_Dispatch kClearFault (PerFaultHsm_Dispatch kClearFault h)
     = PerFaultHsm_Dispatch kClearFault h"
  by (cases "p_state h") (simp_all add: PerFaultHsm_Dispatch_def evt_defs)

lemma PerFaultHsm_Dispatch_ClearFault_state:
  "p_state h = P_Detected \<or> p_state h = P_Active \<Longrightarrow>
   p_state (PerFaultHsm_Dispatch kClearFault h) = P_Cleared \<and>
   p_state (PerFaultHsm_Dispatch kClearFault (PerFaultHsm_Dispatch kClearFault h)) = P_Dormant"
  by (auto simp: PerFaultHsm_Dispatch_def evt_defs)

lemma ClearFault_explicit:
  assumes "i < MaxFaults cfg"
  shows "ClearFault cfg i c =
     c\<lparr>active_bitmap := (active_bitmap c)
          (i div 64 := active_bitmap c (i div 64) AND NOT (push_bit (i mod 64) 1)),
       table := (table c)(i := (table c i)\<lparr>occurrence_count := 0\<rparr>),
       per_fault_hsms := ClearFault_hsms c i,
       global_hsm :=
         (if ActiveFaultCount cfg (ClearFaultActive i c) = 0
          then GlobalHsm_Dispatch kAllCleared (global_hsm c) else global_hsm c)\<rparr>"
proof -
  define c2 where "c2 = (ClearFaultActive i c)\<lparr>table := (table (ClearFaultActive i c))
      (i := (table (ClearFaultActive i c) i)\<lparr>occurrence_count := 0\<rparr>)\<rparr>"
  have bs: "bound_slot c2 i = bound_slot c i"
    by (rule bound_slot_cong) (simp_all add: c2_def ClearFaultActive_def Let_def)
  have ph: "per_fault_hsms c2 = per_fault_hsms c"
    by (simp add: c2_def ClearFaultActive_def Let_def)
  have d: "DispatchPerFaultEvent i kClearFault c2 = c2\<lparr>per_fault_hsms := ClearFault_hsms c i\<rparr>"
    by (cases "bound_slot c i")
       (simp_all add: DispatchPerFaultEvent_bound_slot bs ClearFault_hsms_def ph)
  have afc: "ActiveFaultCount cfg (c2\<lparr>per_fault_hsms := ClearFault_hsms c i\<rparr>)
               = ActiveFaultCount cfg (ClearFaultActive i c)"
    by (simp add: ActiveFaultCount_def c2_def)
  have "ClearFault cfg i c =
      (let c3 = DispatchPerFaultEvent i kClearFault c2 in
       if ActiveFaultCount cfg c3 = 0
       then c3\<lparr>global_hsm := GlobalHsm_Dispatch kAllCleared (global_hsm c3)\<rparr> else c3)"
    using assms by (simp add: ClearFault_def Let_def c2_def)
  also have "\<dots> = c\<lparr>active_bitmap := (active_bitmap c)
          (i div 64 := active_bitmap c (i div 64) AND NOT (push_bit (i mod 64) 1)),
       table := (table c)(i := (table c i)\<lparr>occurrence_count := 0\<rparr>),
       per_fault_hsms := ClearFault_hsms c i,
       global_hsm :=
         (if ActiveFaultCount cfg (ClearFaultActive i c) = 0
          then GlobalHsm_Dispatch kAllCleared (global_hsm c) else global_hsm c)\<rparr>"
    unfolding Let_def d afc
    by (simp add: c2_def ClearFaultActive_def Let_def)
  finally show ?thesis .
qed


lemma ActiveFaultCount_bitmap:
  "active_bitmap c' = active_bitmap c \<Longrightarrow> ActiveFaultCount cfg c' = ActiveFaultCount cfg c"
  by (simp add: ActiveFaultCount_def)

lemma ClearFault_hsms_twice:
  "ClearFault_hsms (c\<lparr>active_bitmap := b, table := t, per_fault_hsms := ClearFault_hsms c i,
                       global_hsm := g\<rparr>) i =
     (case bound_slot c i of
        None \<Rightarrow> per_fault_hsms c
      | Some s \<Rightarrow> (per_fault_hsms c)
          (s := PerFaultHsm_Dispatch kClearFault
                  (PerFaultHsm_Dispatch kClearFault (per_fault_hsms c s))))"
proof -
  have "bound_slot (c\<lparr>active_bitmap := b, table := t, per_fault_hsms := ClearFault_hsms c i,
                       global_hsm := g\<rparr>) i = bound_slot c i"
    by (rule bound_slot_cong) simp_all
  then show ?thesis
    by (cases "bound_slot c i") (simp_all add: ClearFault_hsms_def)
qed

text \<open>
  C6, as the code has it. \<^verbatim>\<open>ClearFault(i)\<close> called twice in a row leaves every member of
  the collector other than the per-fault state machines (the active bitmap, the
  occurrence counters, the global state machine among them) as one call leaves it. When
  the machine bound to \<open>i\<close> is in Detected or Active, the first call moves it to Cleared
  and the second call moves it on to Dormant. In every other case (the index out of
  range, no machine bound to \<open>i\<close>, or the bound machine in Dormant, Recovering or Cleared)
  two calls leave the whole collector as one call does.
\<close>

theorem ClearFault_twice:
  "ClearFault cfg i (ClearFault cfg i c)
     = (ClearFault cfg i c)\<lparr>per_fault_hsms :=
          per_fault_hsms (ClearFault cfg i (ClearFault cfg i c))\<rparr> \<and>
   (\<forall>s. i < MaxFaults cfg \<and> bound_slot c i = Some s \<and>
        (p_state (per_fault_hsms c s) = P_Detected \<or> p_state (per_fault_hsms c s) = P_Active)
      \<longrightarrow> p_state (per_fault_hsms (ClearFault cfg i c) s) = P_Cleared \<and>
          p_state (per_fault_hsms (ClearFault cfg i (ClearFault cfg i c)) s) = P_Dormant) \<and>
   (MaxFaults cfg \<le> i \<or> bound_slot c i = None \<or>
    (\<exists>s. bound_slot c i = Some s \<and> p_state (per_fault_hsms c s) \<noteq> P_Detected \<and>
         p_state (per_fault_hsms c s) \<noteq> P_Active)
      \<longrightarrow> ClearFault cfg i (ClearFault cfg i c) = ClearFault cfg i c)"
proof (cases "i < MaxFaults cfg")
  case False
  then show ?thesis by (simp add: ClearFault_def)
next
  case True
  define once where "once = ClearFault cfg i c"
  define b where "b = (active_bitmap c)
          (i div 64 := active_bitmap c (i div 64) AND NOT (push_bit (i mod 64) 1))"
  define t where "t = (table c)(i := (table c i)\<lparr>occurrence_count := 0\<rparr>)"
  define g where "g = (if ActiveFaultCount cfg (ClearFaultActive i c) = 0
          then GlobalHsm_Dispatch kAllCleared (global_hsm c) else global_hsm c)"
  have once: "once = c\<lparr>active_bitmap := b, table := t, per_fault_hsms := ClearFault_hsms c i,
                         global_hsm := g\<rparr>"
    unfolding once_def b_def t_def g_def using True by (rule ClearFault_explicit)
  have afc: "ActiveFaultCount cfg (ClearFaultActive i once) = ActiveFaultCount cfg (ClearFaultActive i c)"
    by (rule ActiveFaultCount_bitmap) (simp add: once ClearFaultActive_def Let_def b_def)
  have g2: "(if ActiveFaultCount cfg (ClearFaultActive i once) = 0
          then GlobalHsm_Dispatch kAllCleared (global_hsm once) else global_hsm once) = g"
    unfolding afc by (simp add: once g_def GlobalHsm_Dispatch_AllCleared_twice)
  have twice: "ClearFault cfg i once = once\<lparr>per_fault_hsms := ClearFault_hsms once i\<rparr>"
    unfolding ClearFault_explicit [OF True, of once] g2
    by (simp add: once b_def t_def)
  have h2: "ClearFault_hsms once i =
     (case bound_slot c i of
        None \<Rightarrow> per_fault_hsms c
      | Some s \<Rightarrow> (per_fault_hsms c)
          (s := PerFaultHsm_Dispatch kClearFault
                  (PerFaultHsm_Dispatch kClearFault (per_fault_hsms c s))))"
    unfolding once by (rule ClearFault_hsms_twice)
  have A: "ClearFault cfg i once = once\<lparr>per_fault_hsms := per_fault_hsms (ClearFault cfg i once)\<rparr>"
    by (simp add: twice)
  have B: "p_state (per_fault_hsms once s) = P_Cleared \<and>
           p_state (per_fault_hsms (ClearFault cfg i once) s) = P_Dormant"
    if "bound_slot c i = Some s"
      and "p_state (per_fault_hsms c s) = P_Detected \<or> p_state (per_fault_hsms c s) = P_Active"
    for s
    using that PerFaultHsm_Dispatch_ClearFault_state [of "per_fault_hsms c s"]
    by (simp add: twice h2) (simp add: once ClearFault_hsms_def)
  have C1: "ClearFault cfg i once = once" if "bound_slot c i = None"
    using that by (simp add: twice h2) (simp add: once ClearFault_hsms_def)
  have C2: "ClearFault cfg i once = once"
    if "bound_slot c i = Some s" and "p_state (per_fault_hsms c s) \<noteq> P_Detected"
      and "p_state (per_fault_hsms c s) \<noteq> P_Active" for s
    using that PerFaultHsm_Dispatch_kClearFault_idem [of "per_fault_hsms c s"]
    by (simp add: twice h2) (simp add: once ClearFault_hsms_def)
  show ?thesis
    unfolding once_def [symmetric]
  proof (intro conjI allI impI)
    show "ClearFault cfg i once
            = once\<lparr>per_fault_hsms := per_fault_hsms (ClearFault cfg i once)\<rparr>"
      by (rule A)
  next
    fix s
    assume "i < MaxFaults cfg \<and> bound_slot c i = Some s \<and>
        (p_state (per_fault_hsms c s) = P_Detected \<or> p_state (per_fault_hsms c s) = P_Active)"
    then show "p_state (per_fault_hsms once s) = P_Cleared"
      and "p_state (per_fault_hsms (ClearFault cfg i once) s) = P_Dormant"
      using B [of s] by blast+
  next
    assume "MaxFaults cfg \<le> i \<or> bound_slot c i = None \<or>
      (\<exists>s. bound_slot c i = Some s \<and> p_state (per_fault_hsms c s) \<noteq> P_Detected \<and>
         p_state (per_fault_hsms c s) \<noteq> P_Active)"
    with True have "bound_slot c i = None \<or>
      (\<exists>s. bound_slot c i = Some s \<and> p_state (per_fault_hsms c s) \<noteq> P_Detected \<and>
         p_state (per_fault_hsms c s) \<noteq> P_Active)"
      by simp
    then show "ClearFault cfg i once = once"
      using C1 C2 by blast
  qed
qed

theorem ClearFault_twice_witness:
  "bound_slot c_bound 0 = Some 0 \<and> p_state (per_fault_hsms c_bound 0) = P_Detected \<and>
   p_state (per_fault_hsms (ClearFault TestConfig 0 c_bound) 0) = P_Cleared \<and>
   p_state (per_fault_hsms (ClearFault TestConfig 0 (ClearFault TestConfig 0 c_bound)) 0)
     = P_Dormant \<and>
   bound_slot c_registered 0 = None \<and>
   ClearFault TestConfig 0 (ClearFault TestConfig 0 c_registered)
     = ClearFault TestConfig 0 c_registered"
proof -
  have h: "(0::nat) < MaxFaults TestConfig" "bound_slot c_bound 0 = Some 0"
    "p_state (per_fault_hsms c_bound 0) = P_Detected" "bound_slot c_registered 0 = None"
    by (simp_all add: eval_defs)
  from ClearFault_twice [of TestConfig 0 c_bound] h(1,2,3)
  have "p_state (per_fault_hsms (ClearFault TestConfig 0 c_bound) 0) = P_Cleared \<and>
        p_state (per_fault_hsms (ClearFault TestConfig 0 (ClearFault TestConfig 0 c_bound)) 0)
          = P_Dormant"
    by blast
  moreover from ClearFault_twice [of TestConfig 0 c_registered] h(4)
  have "ClearFault TestConfig 0 (ClearFault TestConfig 0 c_registered)
          = ClearFault TestConfig 0 c_registered"
    by blast
  ultimately show ?thesis using h by blast
qed

text \<open>
  The claim that two calls always equal one fails where a per-fault state machine is
  bound: with the machine of fault 0 in Detected, one \<^verbatim>\<open>ClearFault(0)\<close> leaves it in
  Cleared and a second one in Dormant.
\<close>

theorem ClearFault_twice_counterexample:
  "p_state (per_fault_hsms c_bound 0) = P_Detected \<and>
   p_state (per_fault_hsms (ClearFault TestConfig 0 c_bound) 0) = P_Cleared \<and>
   p_state (per_fault_hsms (ClearFault TestConfig 0 (ClearFault TestConfig 0 c_bound)) 0)
     = P_Dormant"
  by (simp add: eval_defs)

section \<open>Statistics after a failed escalation\<close>

text \<open>
  For the four enumerators of \<^verbatim>\<open>FaultPriority\<close>, the level of a report is below 4: the
  reported half of the invariant holds in every run, and every operation other than
  \<^verbatim>\<open>ProcessFaults\<close> keeps the dropped half, since \<^verbatim>\<open>ReportFault\<close> counts a drop in the total
  and in the counter of its level. (A priority cast from a number above 3 is outside this
  model; with more than four levels its level can be 4 or more, which both per-priority
  counters skip.)
\<close>

lemma ReportFault_level_less_4: "ReportFault_level cfg pri < 4"
  by (cases pri) (auto simp: ReportFault_level_def)

lemma sum4_upd:
  fixes r :: "nat \<Rightarrow> u64"
  assumes "level < 4"
  shows "(r(level := r level + 1)) 0 + (r(level := r level + 1)) 1
           + (r(level := r level + 1)) 2 + (r(level := r level + 1)) 3
         = r 0 + r 1 + r 2 + r 3 + 1"
proof -
  from assms consider "level = 0" | "level = 1" | "level = 2" | "level = 3"
    by linarith
  then show ?thesis
    by cases simp_all
qed

lemma stats_reported_ProcessEntry [simp]:
  "stats_total_reported (ProcessEntry cfg e c) = stats_total_reported c"
  "stats_reported (ProcessEntry cfg e c) = stats_reported c"
proof -
  have n: "stats_total_reported (ProcessEntry_notify e c) = stats_total_reported c"
    "stats_reported (ProcessEntry_notify e c) = stats_reported c"
    by (simp_all add: ProcessEntry_notify_def Let_def AddToRecentRing_def split: option.splits)
  have h: "stats_total_reported (snd (ProcessEntry_hook ev idx c')) = stats_total_reported c'"
    "stats_reported (snd (ProcessEntry_hook ev idx c')) = stats_reported c'"
    for ev idx and c' :: "'a FaultCollector"
    by (simp_all add: ProcessEntry_hook_def split: option.splits prod.splits)
  have e: "stats_total_reported (HandleEscalation cfg e c') = stats_total_reported c'"
    "stats_reported (HandleEscalation cfg e c') = stats_reported c'"
    for c' :: "'a FaultCollector"
    by (simp_all add: HandleEscalation_def Let_def split: prod.splits)
  have a: "stats_total_reported (ProcessEntry_action cfg a e c') = stats_total_reported c'"
    "stats_reported (ProcessEntry_action cfg a e c') = stats_reported c'"
    for a and c' :: "'a FaultCollector"
    by (cases a;
        simp add: ProcessEntry_action_def Let_def ClearFaultActive_def e split: option.splits)+
  show "stats_total_reported (ProcessEntry cfg e c) = stats_total_reported c"
    "stats_reported (ProcessEntry cfg e c) = stats_reported c"
    by (simp_all add: ProcessEntry_def case_prod_beta a h n)
qed

lemma reported_consistent_ProcessFaults_loop:
  "reported_consistent c \<Longrightarrow> reported_consistent (snd (ProcessFaults_loop cfg c n))"
  by (rule ProcessFaults_loop_invariant) (simp_all add: reported_consistent_def)

lemma reported_consistent_ReportFault:
  "reported_consistent c \<Longrightarrow> reported_consistent (snd (ReportFault cfg idx det pri c))"
proof -
  assume rc: "reported_consistent c"
  have d: "reported_consistent (ReportFault_dropped idx pri level c1) = reported_consistent c1"
    for level and c1 :: "'a FaultCollector"
    by (simp add: ReportFault_dropped_def Let_def reported_consistent_def split: option.splits)
  have a: "reported_consistent (ReportFault_admitted idx pri level c1)"
    if "reported_consistent c1" and "level < 4"
    for level and c1 :: "'a FaultCollector"
    using that sum4_upd [of level "stats_reported c1"]
    by (simp add: ReportFault_admitted_def Let_def SetFaultActive_def reported_consistent_def)
  have q: "reported_consistent (c\<lparr>queue_set := qs, world := w\<rparr>)" for qs w
    using rc by (simp add: reported_consistent_def)
  show ?thesis
    using rc by (simp add: ReportFault_def Let_def d a q ReportFault_level_less_4 split: prod.splits)
qed

lemma fold_zero_4: "fold (\<lambda>i r. r(i := 0)) [0..<4] (r :: nat \<Rightarrow> u64) = r(0 := 0, 1 := 0, 2 := 0, 3 := 0)"
  by (simp add: upt_rec numeral_eq_Suc)

lemma reported_consistent_apply_op:
  "reported_consistent c \<Longrightarrow> reported_consistent (apply_op cfg op c)"
proof (cases op)
  case OpProcessFaults
  assume "reported_consistent c"
  then show ?thesis
    unfolding OpProcessFaults
    by (simp add: ProcessFaults_def reported_consistent_ProcessFaults_loop)
next
  case (OpReportFault idx det pri)
  assume "reported_consistent c"
  then show ?thesis
    unfolding OpReportFault by (simp add: reported_consistent_ReportFault)
next
  case OpResetStatistics
  then show ?thesis
    by (simp add: ResetStatistics_def reported_consistent_def fold_zero_4)
qed (auto simp: reported_consistent_def RegisterFault_def RegisterHook_def SetDefaultHook_def
      SetOverflowCallback_def SetShutdownCallback_def SetBusNotifier_def BindFaultHsm_def
      ClearFault_def ClearAllFaults_def Let_def ClearFaultActive_def)

lemma reported_consistent_run:
  "reported_consistent c \<Longrightarrow> reported_consistent (run cfg ops c)"
  unfolding run_def
  by (induction ops arbitrary: c) (simp_all add: reported_consistent_apply_op)

lemma reported_consistent_init: "reported_consistent (FaultCollector_init w)"
  by (simp add: reported_consistent_def FaultCollector_init_def)

lemma dropped_consistent_ReportFault:
  "dropped_consistent c \<Longrightarrow> dropped_consistent (snd (ReportFault cfg idx det pri c))"
proof -
  assume rc: "dropped_consistent c"
  have d: "dropped_consistent (ReportFault_dropped idx pri level c1)"
    if "dropped_consistent c1" and "level < 4"
    for level and c1 :: "'a FaultCollector"
    using that sum4_upd [of level "stats_dropped c1"]
    by (simp add: ReportFault_dropped_def Let_def dropped_consistent_def split: option.splits)
  have a: "dropped_consistent (ReportFault_admitted idx pri level c1) = dropped_consistent c1"
    for level and c1 :: "'a FaultCollector"
    by (simp add: ReportFault_admitted_def Let_def SetFaultActive_def dropped_consistent_def)
  have q: "dropped_consistent (c\<lparr>queue_set := qs, world := w\<rparr>)" for qs w
    using rc by (simp add: dropped_consistent_def)
  show ?thesis
    using rc by (simp add: ReportFault_def Let_def d a q ReportFault_level_less_4 split: prod.splits)
qed

lemma dropped_consistent_apply_op:
  "op \<noteq> OpProcessFaults \<Longrightarrow> dropped_consistent c \<Longrightarrow> dropped_consistent (apply_op cfg op c)"
proof (cases op)
  case (OpReportFault idx det pri)
  assume "dropped_consistent c"
  then show ?thesis
    unfolding OpReportFault by (simp add: dropped_consistent_ReportFault)
next
  case OpResetStatistics
  then show ?thesis
    by (simp add: ResetStatistics_def dropped_consistent_def fold_zero_4)
qed (auto simp: dropped_consistent_def RegisterFault_def RegisterHook_def SetDefaultHook_def
      SetOverflowCallback_def SetShutdownCallback_def SetBusNotifier_def BindFaultHsm_def
      ClearFault_def ClearAllFaults_def Let_def ClearFaultActive_def)

text \<open>The example configurations satisfy the \<^verbatim>\<open>static_assert\<close>s.\<close>

lemma example_configs_valid:
  "valid_config TestConfig" "valid_config TwoLevelConfig" "valid_config LogConfig"
  by (simp_all add: valid_config_def TestConfig_def TwoLevelConfig_def LogConfig_def)

text \<open>
  C1. The claim is that after every run \<^verbatim>\<open>total_reported\<close> is the sum of the four
  \<^verbatim>\<open>priority_reported\<close> counters and \<^verbatim>\<open>total_dropped\<close> the sum of the four
  \<^verbatim>\<open>priority_dropped\<close> counters, also after a failed escalation re-enqueue. The code breaks
  the second half: \<^verbatim>\<open>HandleEscalation\<close> counts a failed re-enqueue in \<^verbatim>\<open>total_dropped\<close> only,
  where \<^verbatim>\<open>ReportFault\<close> counts a drop in both. In \<^verbatim>\<open>FaultCollector<16, 8, 2, 4>\<close>, a report of
  priority Low is queued at level 1; its hook returns \<^verbatim>\<open>kEscalate\<close>, the re-enqueue at level
  2 fails, and \<^verbatim>\<open>ProcessFaults\<close> ends with \<^verbatim>\<open>total_dropped = 1\<close> and the four per-priority
  drop counters 0.
\<close>

theorem failed_escalation_breaks_dropped_sum:
  "dropped_consistent c_escalating \<and>
   fst (ProcessFaults TwoLevelConfig c_escalating) = 1 \<and>
   stats_total_dropped (snd (ProcessFaults TwoLevelConfig c_escalating)) = 1 \<and>
   stats_dropped (snd (ProcessFaults TwoLevelConfig c_escalating)) 0 = 0 \<and>
   stats_dropped (snd (ProcessFaults TwoLevelConfig c_escalating)) 1 = 0 \<and>
   stats_dropped (snd (ProcessFaults TwoLevelConfig c_escalating)) 2 = 0 \<and>
   stats_dropped (snd (ProcessFaults TwoLevelConfig c_escalating)) 3 = 0 \<and>
   \<not> dropped_consistent (snd (ProcessFaults TwoLevelConfig c_escalating)) \<and>
   reported_consistent (snd (ProcessFaults TwoLevelConfig c_escalating))"
  by (simp add: eval_defs dropped_consistent_def reported_consistent_def)

end
